theory Spec2Isabelle
  imports Main
begin

section \<open>Data model of the authentication context\<close>

text \<open>
  The three interfaces \<^verbatim>\<open>StoredAccount\<close>, \<^verbatim>\<open>PasswordResetToken\<close> and \<^verbatim>\<open>AuthUser\<close> all have a
  field \<^verbatim>\<open>email\<close>. The records extend a common base, so that the one selector \<open>email\<close>
  reads all three, as the property access does in the source.

  Strings are lists of 8-bit characters, read as the code units of a Latin-1 string.
  Timestamps are the milliseconds since the epoch that the stored ISO string denotes
  (\<^verbatim>\<open>new Date(ms).toISOString()\<close> and \<^verbatim>\<open>new Date(iso).getTime()\<close> are inverse to each other).
\<close>

record Keyed =
  email :: string

record AuthUser = Keyed +
  createdAt :: int

record StoredAccount = AuthUser +
  passwordHash :: string

record PasswordResetToken = Keyed +
  otpHash :: string
  expiresAt :: int

text \<open>
  Every \<^verbatim>\<open>throw new Error(...)\<close> of the source, named by its kind:
  \<^item> \<open>DuplicateAccount\<close>: "An account with this email already exists. Try signing in."
  \<^item> \<open>AccountNotFound\<close>: "Account not found. Please sign up first." (signIn),
    "We couldn't find an account with that email." (requestPasswordReset),
    "Account not found." (verifyPasswordReset)
  \<^item> \<open>InvalidCredential\<close>: "Incorrect password. Please try again."
  \<^item> \<open>ResetNotFound\<close>: "No reset request found for this email. Please request a new code."
  \<^item> \<open>ResetExpired\<close>: "The OTP has expired. Please request a new code."
  \<^item> \<open>InvalidCode\<close>: "Invalid OTP. Double-check the code and try again."
\<close>

datatype auth_error =
    DuplicateAccount
  | AccountNotFound
  | InvalidCredential
  | ResetNotFound
  | ResetExpired
  | InvalidCode

subsection \<open>The browser's storage\<close>

text \<open>
  \<^verbatim>\<open>localStorage\<close> holds strings. A string under one of the two collection keys is
  represented by what \<^verbatim>\<open>JSON.parse\<close> makes of it: text that it rejects with a
  \<^verbatim>\<open>SyntaxError\<close> (\<open>Malformed\<close>, the empty string among them), or the text of a JSON value,
  which is an array of records (\<open>Arr\<close>, what \<^verbatim>\<open>JSON.stringify\<close> of the collection
  writes) or any other value (\<open>Other\<close>). As the source's cast
  \<^verbatim>\<open>as StoredAccount[]\<close> does, the elements of a parsed array are taken to have the
  declared type. \<^verbatim>\<open>getItem\<close> of a key that is not there is \<open>None\<close>.
\<close>

datatype 'a parsed = Arr "'a list" | Other

datatype 'a raw = Malformed | Text "'a parsed"

fun JSON_parse :: "'a raw \<Rightarrow> 'a parsed option" where
  "JSON_parse Malformed = None"
| "JSON_parse (Text v) = Some v"

definition JSON_stringify :: "'a list \<Rightarrow> 'a raw" where
  "JSON_stringify xs = Text (Arr xs)"

record localStorage =
  ACCOUNTS_KEY :: "StoredAccount raw option"
  SESSION_KEY :: "string option"
  RESET_KEY :: "PasswordResetToken raw option"

text \<open>
  The state the provider works on: \<open>window\<close> is \<open>None\<close> where
  \<^verbatim>\<open>typeof window === "undefined"\<close>, and the three \<^verbatim>\<open>useState\<close> slots.
\<close>

record state =
  window :: "localStorage option"
  user :: "AuthUser option"
  loading :: bool
  error :: "auth_error option"

definition isAuthenticated :: "state \<Rightarrow> bool" where
  "isAuthenticated s = (user s \<noteq> None)"

section \<open>Built-ins the module calls\<close>

text \<open>\<^verbatim>\<open>String.prototype.toLowerCase\<close> on Latin-1: A-Z and the accented capitals
  (0xC0-0xDE without the multiplication sign 0xD7) move up by 32.\<close>

definition lowerChar :: "char \<Rightarrow> char" where
  "lowerChar c =
     (let n = (of_char c :: nat)
      in if (65 \<le> n \<and> n \<le> 90) \<or> (192 \<le> n \<and> n \<le> 222 \<and> n \<noteq> 215)
         then char_of (n + 32) else c)"

definition toLowerCase :: "string \<Rightarrow> string" where
  "toLowerCase v = map lowerChar v"

text \<open>\<^verbatim>\<open>btoa\<close>: base64 of the string's code units, three at a time.\<close>

definition b64 :: "nat \<Rightarrow> char" where
  "b64 n = ''ABCDEFGHIJKLMNOPQRSTUVWXYZabcdefghijklmnopqrstuvwxyz0123456789+/'' ! n"

fun btoa_units :: "nat list \<Rightarrow> string" where
  "btoa_units [] = []"
| "btoa_units [a] = [b64 (a div 4), b64 ((a mod 4) * 16), CHR ''='', CHR ''='']"
| "btoa_units [a, b] =
     [b64 (a div 4), b64 ((a mod 4) * 16 + b div 16), b64 ((b mod 16) * 4), CHR ''='']"
| "btoa_units (a # b # c # rest) =
     [b64 (a div 4), b64 ((a mod 4) * 16 + b div 16), b64 ((b mod 16) * 4 + c div 64),
      b64 (c mod 64)] @ btoa_units rest"

definition btoa :: "string \<Rightarrow> string" where
  "btoa v = btoa_units (map of_char v)"

text \<open>
  \<^verbatim>\<open>hashString\<close>: where the runtime has \<^verbatim>\<open>crypto.subtle\<close> and a \<^verbatim>\<open>TextEncoder\<close>, the
  SHA-256 digest in hexadecimal, which is the parameter \<open>subtle\<close> (\<open>Some\<close> of that
  function); otherwise \<^verbatim>\<open>btoa(value)\<close>.
\<close>

definition hashString :: "(string \<Rightarrow> string) option \<Rightarrow> string \<Rightarrow> string" where
  "hashString subtle v = (case subtle of Some sha256_hex \<Rightarrow> sha256_hex v | None \<Rightarrow> btoa v)"

text \<open>\<^verbatim>\<open>Number.prototype.toString\<close> on an integer: its decimal digits.\<close>

definition digit :: "nat \<Rightarrow> char" where
  "digit d = char_of (48 + d)"

function digits :: "nat \<Rightarrow> string" where
  "digits n = (if n < 10 then [digit n] else digits (n div 10) @ [digit (n mod 10)])"
  by pat_completeness auto
termination
  by (relation "measure id") auto

declare digits.simps [simp del]

definition toString :: "int \<Rightarrow> string" where
  "toString i = (if i < 0 then CHR ''-'' # digits (nat (- i)) else digits (nat i))"

text \<open>
  Doubles. \<open>Dyadic m k\<close> stands for the nonnegative double \<open>m / 2 ^ k\<close>; every double of
  the interval \<open>[0, 1)\<close>, which is what \<^verbatim>\<open>Math.random()\<close> returns, is one with
  \<open>m < 2 ^ 53\<close> (its significand has 53 bits) and \<open>m < 2 ^ k\<close>.
  The arithmetic is that of IEEE 754: the exact result, rounded to 53 significant bits,
  to the nearest and to the even one at a tie. \<open>round53\<close> rounds a numerator so;
  the denominator \<open>2 ^ k\<close> does not change which bits are kept.
\<close>

datatype double = Dyadic nat nat

fun inUnitInterval :: "double \<Rightarrow> bool" where
  "inUnitInterval (Dyadic m k) = (m < 2 ^ 53 \<and> m < 2 ^ k)"

function bitLength :: "nat \<Rightarrow> nat" where
  "bitLength n = (if n = 0 then 0 else Suc (bitLength (n div 2)))"
  by pat_completeness auto
termination
  by (relation "measure id") auto

declare bitLength.simps [simp del]

definition round53 :: "nat \<Rightarrow> nat" where
  "round53 n =
     (if n < 2 ^ 53 then n
      else
        (let s = bitLength n - 53;
             q = n div 2 ^ s;
             rem = n mod 2 ^ s;
             half = 2 ^ (s - 1)
         in (if rem > half \<or> (rem = half \<and> odd q) then q + 1 else q) * 2 ^ s))"

text \<open>The product of a double and an integer, the sum of an integer and a double (the
  integers here are doubles themselves), and \<^verbatim>\<open>Math.floor\<close>.\<close>

fun double_times :: "double \<Rightarrow> nat \<Rightarrow> double" where
  "double_times (Dyadic m k) c = Dyadic (round53 (m * c)) k"

fun double_plus :: "nat \<Rightarrow> double \<Rightarrow> double" where
  "double_plus c (Dyadic m k) = Dyadic (round53 (c * 2 ^ k + m)) k"

fun Math_floor :: "double \<Rightarrow> int" where
  "Math_floor (Dyadic m k) = int (m div 2 ^ k)"

text \<open>\<^verbatim>\<open>generateOtp\<close>; \<open>r\<close> is what \<^verbatim>\<open>Math.random()\<close> returns.\<close>

definition generateOtp :: "double \<Rightarrow> string" where
  "generateOtp r = toString (Math_floor (double_plus 100000 (double_times r 900000)))"

section \<open>Reading and writing the store\<close>

definition getAccounts :: "state \<Rightarrow> StoredAccount list" where
  "getAccounts s =
     (case window s of
        None \<Rightarrow> []
      | Some ls \<Rightarrow>
          (case ACCOUNTS_KEY ls of
             None \<Rightarrow> []
           | Some raw \<Rightarrow>
               (case JSON_parse raw of
                  None \<Rightarrow> []
                | Some (Arr parsed) \<Rightarrow> parsed
                | Some Other \<Rightarrow> [])))"

definition persistAccounts :: "StoredAccount list \<Rightarrow> state \<Rightarrow> state" where
  "persistAccounts accounts s =
     (case window s of
        None \<Rightarrow> s
      | Some ls \<Rightarrow> s\<lparr>window := Some (ls\<lparr>ACCOUNTS_KEY := Some (JSON_stringify accounts)\<rparr>)\<rparr>)"

definition persistSession :: "string option \<Rightarrow> state \<Rightarrow> state" where
  "persistSession em s =
     (case window s of
        None \<Rightarrow> s
      | Some ls \<Rightarrow>
          (if em = None \<or> em = Some []
           then s\<lparr>window := Some (ls\<lparr>SESSION_KEY := None\<rparr>)\<rparr>
           else s\<lparr>window := Some (ls\<lparr>SESSION_KEY := em\<rparr>)\<rparr>))"

definition getSession :: "state \<Rightarrow> string option" where
  "getSession s = (case window s of None \<Rightarrow> None | Some ls \<Rightarrow> SESSION_KEY ls)"

definition getResetTokens :: "state \<Rightarrow> PasswordResetToken list" where
  "getResetTokens s =
     (case window s of
        None \<Rightarrow> []
      | Some ls \<Rightarrow>
          (case RESET_KEY ls of
             None \<Rightarrow> []
           | Some raw \<Rightarrow>
               (case JSON_parse raw of
                  None \<Rightarrow> []
                | Some (Arr parsed) \<Rightarrow> parsed
                | Some Other \<Rightarrow> [])))"

definition persistResetTokens :: "PasswordResetToken list \<Rightarrow> state \<Rightarrow> state" where
  "persistResetTokens tokens s =
     (case window s of
        None \<Rightarrow> s
      | Some ls \<Rightarrow> s\<lparr>window := Some (ls\<lparr>RESET_KEY := Some (JSON_stringify tokens)\<rparr>)\<rparr>)"

section \<open>The provider's operations\<close>

text \<open>
  An operation takes the state and returns what the promise settles to (\<open>Inl\<close> the
  error it rejects with, \<open>Inr\<close> the value it resolves to) and the state it leaves.
  The clock (\<^verbatim>\<open>Date.now()\<close>, \<^verbatim>\<open>new Date()\<close>) is the parameter \<open>now\<close>, in milliseconds.
  A call runs to its end before the next one starts: what two calls do when they overlap
  at an \<^verbatim>\<open>await\<close> is not modelled.
\<close>

definition loadAccountForEmail :: "string option \<Rightarrow> state \<Rightarrow> StoredAccount option" where
  "loadAccountForEmail em s =
     (case em of
        None \<Rightarrow> None
      | Some e \<Rightarrow>
          (if e = [] then None
           else find (\<lambda>item. email item = toLowerCase e) (getAccounts s)))"

definition setUser :: "AuthUser option \<Rightarrow> state \<Rightarrow> state" where
  "setUser u s = s\<lparr>user := u\<rparr>"

definition setLoading :: "bool \<Rightarrow> state \<Rightarrow> state" where
  "setLoading b s = s\<lparr>loading := b\<rparr>"

definition setError :: "auth_error option \<Rightarrow> state \<Rightarrow> state" where
  "setError e s = s\<lparr>error := e\<rparr>"

definition initialiseSession :: "state \<Rightarrow> state" where
  "initialiseSession s =
     (let em = getSession s in
      setLoading False
        (case loadAccountForEmail em s of
           Some account \<Rightarrow> setUser (Some \<lparr>email = email account, createdAt = createdAt account\<rparr>) s
         | None \<Rightarrow> setUser None (persistSession None s)))"

definition runAuthAction ::
  "(state \<Rightarrow> (auth_error + 'a) \<times> state) \<Rightarrow> state \<Rightarrow> (auth_error + 'a) \<times> state" where
  "runAuthAction action s =
     (case action (setError None s) of
        (Inl err, s') \<Rightarrow> (Inl err, setError (Some err) s')
      | (Inr v, s') \<Rightarrow> (Inr v, s'))"

definition clearError :: "state \<Rightarrow> state" where
  "clearError s = setError None s"

definition signIn ::
  "(string \<Rightarrow> string) option \<Rightarrow> string \<Rightarrow> string \<Rightarrow> state \<Rightarrow> (auth_error + unit) \<times> state" where
  "signIn subtle em password =
     runAuthAction (\<lambda>s.
       let accounts = getAccounts s;
           normalizedEmail = toLowerCase em
       in case find (\<lambda>account. email account = normalizedEmail) accounts of
            None \<Rightarrow> (Inl AccountNotFound, s)
          | Some existing \<Rightarrow>
              (let hash = hashString subtle password
               in if passwordHash existing \<noteq> hash then (Inl InvalidCredential, s)
                  else (Inr (),
                        persistSession (Some (email existing))
                          (setUser (Some \<lparr>email = email existing,
                                           createdAt = createdAt existing\<rparr>) s))))"

definition signUp ::
  "(string \<Rightarrow> string) option \<Rightarrow> int \<Rightarrow> string \<Rightarrow> string \<Rightarrow> state
     \<Rightarrow> (auth_error + unit) \<times> state" where
  "signUp subtle now em password =
     runAuthAction (\<lambda>s.
       let normalizedEmail = toLowerCase em;
           accounts = getAccounts s
       in if list_ex (\<lambda>account. email account = normalizedEmail) accounts
          then (Inl DuplicateAccount, s)
          else
            (let newAccount = \<lparr>email = normalizedEmail, createdAt = now,
                               passwordHash = hashString subtle password\<rparr>
             in (Inr (),
                 persistSession (Some (email newAccount))
                   (setUser (Some \<lparr>email = email newAccount, createdAt = createdAt newAccount\<rparr>)
                      (persistAccounts (accounts @ [newAccount]) s)))))"

definition signOut :: "state \<Rightarrow> (auth_error + unit) \<times> state" where
  "signOut = runAuthAction (\<lambda>s. (Inr (), setUser None (persistSession None s)))"

definition requestPasswordReset ::
  "(string \<Rightarrow> string) option \<Rightarrow> int \<Rightarrow> double \<Rightarrow> string \<Rightarrow> state
     \<Rightarrow> (auth_error + string) \<times> state" where
  "requestPasswordReset subtle now r em =
     runAuthAction (\<lambda>s.
       let normalizedEmail = toLowerCase em;
           accounts = getAccounts s
       in case find (\<lambda>account. email account = normalizedEmail) accounts of
            None \<Rightarrow> (Inl AccountNotFound, s)
          | Some existing \<Rightarrow>
              (let otp = generateOtp r;
                   tokens = filter (\<lambda>token. email token \<noteq> normalizedEmail) (getResetTokens s)
               in (Inr otp,
                   persistResetTokens
                     (tokens @ [\<lparr>email = normalizedEmail, otpHash = hashString subtle otp,
                                 expiresAt = now + 10 * 60 * 1000\<rparr>]) s)))"

text \<open>\<^verbatim>\<open>Array.prototype.findIndex\<close>; \<open>None\<close> is its \<open>-1\<close>.\<close>

fun findIndex :: "('a \<Rightarrow> bool) \<Rightarrow> 'a list \<Rightarrow> nat option" where
  "findIndex P [] = None"
| "findIndex P (x # xs) =
     (if P x then Some 0 else map_option Suc (findIndex P xs))"

definition verifyPasswordReset ::
  "(string \<Rightarrow> string) option \<Rightarrow> int \<Rightarrow> string \<Rightarrow> string \<Rightarrow> string \<Rightarrow> state
     \<Rightarrow> (auth_error + unit) \<times> state" where
  "verifyPasswordReset subtle now em otp newPassword =
     runAuthAction (\<lambda>s.
       let normalizedEmail = toLowerCase em;
           tokens = getResetTokens s
       in case find (\<lambda>item. email item = normalizedEmail) tokens of
            None \<Rightarrow> (Inl ResetNotFound, s)
          | Some token \<Rightarrow>
              if expiresAt token < now
              then (Inl ResetExpired,
                    persistResetTokens
                      (filter (\<lambda>item. email item \<noteq> normalizedEmail) tokens) s)
              else if hashString subtle otp \<noteq> otpHash token then (Inl InvalidCode, s)
              else
                (let accounts = getAccounts s
                 in case findIndex (\<lambda>account. email account = normalizedEmail) accounts of
                      None \<Rightarrow> (Inl AccountNotFound, s)
                    | Some existingIndex \<Rightarrow>
                        (let updatedAccounts =
                               accounts[existingIndex :=
                                 (accounts ! existingIndex)
                                   \<lparr>passwordHash := hashString subtle newPassword\<rparr>]
                         in (Inr (),
                             persistSession (Some (email (updatedAccounts ! existingIndex)))
                               (setUser
                                  (Some \<lparr>email = email (updatedAccounts ! existingIndex),
                                         createdAt = createdAt (updatedAccounts ! existingIndex)\<rparr>)
                                  (persistResetTokens
                                     (filter (\<lambda>item. email item \<noteq> normalizedEmail) tokens)
                                     (persistAccounts updatedAccounts s)))))))"

definition refreshSession :: "state \<Rightarrow> (auth_error + bool) \<times> state" where
  "refreshSession =
     runAuthAction (\<lambda>s.
       let em = getSession s
       in case loadAccountForEmail em s of
            Some account \<Rightarrow>
              (Inr True, setUser (Some \<lparr>email = email account, createdAt = createdAt account\<rparr>) s)
          | None \<Rightarrow> (Inr False, setUser None (persistSession None s)))"

section \<open>Sequences of operations\<close>

text \<open>A call of the public contract (or the start-up effect), with the clock and the random
  number it reads; \<open>perform\<close> gives the failure it rejects with, if any, and the state it
  leaves; \<open>run\<close> performs a sequence of calls, left to right, whatever each one's outcome.\<close>

datatype operation =
    SignIn string string
  | SignUp int string string
  | SignOut
  | RequestPasswordReset int double string
  | VerifyPasswordReset int string string string
  | RefreshSession
  | ClearError
  | InitialiseSession

definition failure :: "(auth_error + 'a) \<times> state \<Rightarrow> auth_error option \<times> state" where
  "failure p = (case fst p of Inl err \<Rightarrow> Some err | Inr v \<Rightarrow> None, snd p)"

fun perform :: "(string \<Rightarrow> string) option \<Rightarrow> operation \<Rightarrow> state \<Rightarrow> auth_error option \<times> state" where
  "perform subtle (SignIn em password) s = failure (signIn subtle em password s)"
| "perform subtle (SignUp now em password) s = failure (signUp subtle now em password s)"
| "perform subtle SignOut s = failure (signOut s)"
| "perform subtle (RequestPasswordReset now r em) s =
     failure (requestPasswordReset subtle now r em s)"
| "perform subtle (VerifyPasswordReset now em otp newPassword) s =
     failure (verifyPasswordReset subtle now em otp newPassword s)"
| "perform subtle RefreshSession s = failure (refreshSession s)"
| "perform subtle ClearError s = (None, clearError s)"
| "perform subtle InitialiseSession s = (None, initialiseSession s)"

fun run :: "(string \<Rightarrow> string) option \<Rightarrow> operation list \<Rightarrow> state \<Rightarrow> state" where
  "run subtle [] s = s"
| "run subtle (op # ops) s = run subtle ops (snd (perform subtle op s))"

section \<open>States and notions the theorems speak of\<close>

text \<open>The store of a browser profile that holds none of the three keys.\<close>

definition emptyStore :: localStorage where
  "emptyStore = \<lparr>ACCOUNTS_KEY = None, SESSION_KEY = None, RESET_KEY = None\<rparr>"

text \<open>The provider as it is mounted in a fresh browser profile: the initial values of the
  three \<^verbatim>\<open>useState\<close> slots over the empty store.\<close>

definition initialState :: state where
  "initialState = \<lparr>window = Some emptyStore, user = None, loading = True, error = None\<rparr>"

text \<open>A store whose Session Pointer names an email that has no account.\<close>

definition danglingState :: state where
  "danglingState = initialState\<lparr>window := Some (emptyStore\<lparr>SESSION_KEY := Some ''ghost@x.io''\<rparr>)\<rparr>"

text \<open>The scenario of the spec: an account signed up on the empty store at time 0, and a
  reset requested for it at time 1000 with the random number one half (\<open>Dyadic 2 2\<close>).\<close>

definition withAccount :: state where
  "withAccount = snd (signUp None 0 ''user@test.com'' ''secret1'' initialState)"

definition withToken :: state where
  "withToken = snd (requestPasswordReset None 1000 (Dyadic 2 2) ''user@test.com'' withAccount)"

text \<open>The same scenario for the account whose email is the empty string, which sign-up
  accepts.\<close>

definition withNamelessAccount :: state where
  "withNamelessAccount = snd (signUp None 0 '''' ''secret1'' initialState)"

definition withNamelessToken :: state where
  "withNamelessToken = snd (requestPasswordReset None 1000 (Dyadic 2 2) '''' withNamelessAccount)"

text \<open>The emails of the Accounts collection, in its order, and their normalized forms.\<close>

definition accountEmails :: "state \<Rightarrow> string list" where
  "accountEmails s = map email (getAccounts s)"

definition normalizedEmails :: "state \<Rightarrow> string list" where
  "normalizedEmails s = map toLowerCase (accountEmails s)"

text \<open>
  What the spec calls a missing or corrupt value of a collection: the key is not there,
  its text is not valid JSON, or it parses to something that is not an array.
  \<open>readAsEmpty\<close> is the same state with the text of the empty array in place of every
  such value.
\<close>

fun unreadable :: "'a raw option \<Rightarrow> bool" where
  "unreadable None = True"
| "unreadable (Some Malformed) = True"
| "unreadable (Some (Text Other)) = True"
| "unreadable (Some (Text (Arr xs))) = False"

definition readAsEmpty :: "state \<Rightarrow> state" where
  "readAsEmpty s =
     (case window s of
        None \<Rightarrow> s
      | Some ls \<Rightarrow>
          s\<lparr>window := Some (ls\<lparr>
            ACCOUNTS_KEY :=
              (if unreadable (ACCOUNTS_KEY ls) then Some (JSON_stringify []) else ACCOUNTS_KEY ls),
            RESET_KEY :=
              (if unreadable (RESET_KEY ls) then Some (JSON_stringify []) else RESET_KEY ls)\<rparr>)\<rparr>)"

text \<open>A store whose Accounts text is not JSON and whose Reset Tokens text is a JSON object.\<close>

definition corruptStore :: localStorage where
  "corruptStore = \<lparr>ACCOUNTS_KEY = Some Malformed, SESSION_KEY = None, RESET_KEY = Some (Text Other)\<rparr>"

definition corruptState :: state where
  "corruptState = initialState\<lparr>window := Some corruptStore\<rparr>"

text \<open>A store that holds a token for an email and no account: the Accounts key is missing.\<close>

definition orphanTokenState :: state where
  "orphanTokenState =
     initialState\<lparr>window := Some (emptyStore\<lparr>RESET_KEY := Some (JSON_stringify
       [\<lparr>email = ''user@test.com'', otpHash = hashString None ''550000'',
         expiresAt = 601000\<rparr>])\<rparr>)\<rparr>"

text \<open>A digest under which any two passwords collide.\<close>

definition collidingDigest :: "string \<Rightarrow> string" where
  "collidingDigest v = ''00''"

text \<open>The emails of the Reset Tokens collection, in its order.\<close>

definition tokenEmails :: "state \<Rightarrow> string list" where
  "tokenEmails s = map email (getResetTokens s)"

section \<open>What the setters leave alone\<close>


lemma getAccounts_setUser [simp]: "getAccounts (setUser u s) = getAccounts s"
  by (simp add: getAccounts_def setUser_def)
lemma getAccounts_setError [simp]: "getAccounts (setError e s) = getAccounts s"
  by (simp add: getAccounts_def setError_def)
lemma getAccounts_setLoading [simp]: "getAccounts (setLoading b s) = getAccounts s"
  by (simp add: getAccounts_def setLoading_def)
lemma getAccounts_persistSession [simp]: "getAccounts (persistSession e s) = getAccounts s"
  by (simp add: getAccounts_def persistSession_def split: option.splits)
lemma getAccounts_persistResetTokens [simp]: "getAccounts (persistResetTokens t s) = getAccounts s"
  by (simp add: getAccounts_def persistResetTokens_def split: option.splits)
lemma getAccounts_persistAccounts:
  "getAccounts (persistAccounts xs s) = (if window s = None then [] else xs)"
  by (simp add: getAccounts_def persistAccounts_def JSON_stringify_def split: option.splits)

lemma getResetTokens_setUser [simp]: "getResetTokens (setUser u s) = getResetTokens s"
  by (simp add: getResetTokens_def setUser_def)
lemma getResetTokens_setError [simp]: "getResetTokens (setError e s) = getResetTokens s"
  by (simp add: getResetTokens_def setError_def)
lemma getResetTokens_setLoading [simp]: "getResetTokens (setLoading b s) = getResetTokens s"
  by (simp add: getResetTokens_def setLoading_def)
lemma getResetTokens_persistSession [simp]: "getResetTokens (persistSession e s) = getResetTokens s"
  by (simp add: getResetTokens_def persistSession_def split: option.splits)
lemma getResetTokens_persistAccounts [simp]: "getResetTokens (persistAccounts t s) = getResetTokens s"
  by (simp add: getResetTokens_def persistAccounts_def split: option.splits)
lemma getResetTokens_persistResetTokens:
  "getResetTokens (persistResetTokens xs s) = (if window s = None then [] else xs)"
  by (simp add: getResetTokens_def persistResetTokens_def JSON_stringify_def split: option.splits)

lemma getSession_setUser [simp]: "getSession (setUser u s) = getSession s"
  by (simp add: getSession_def setUser_def)
lemma getSession_setError [simp]: "getSession (setError e s) = getSession s"
  by (simp add: getSession_def setError_def)
lemma getSession_setLoading [simp]: "getSession (setLoading b s) = getSession s"
  by (simp add: getSession_def setLoading_def)
lemma getSession_persistAccounts [simp]: "getSession (persistAccounts e s) = getSession s"
  by (simp add: getSession_def persistAccounts_def split: option.splits)
lemma getSession_persistResetTokens [simp]: "getSession (persistResetTokens t s) = getSession s"
  by (simp add: getSession_def persistResetTokens_def split: option.splits)
lemma getSession_persistSession:
  "getSession (persistSession e s) = (if window s = None \<or> e = Some [] then None else e)"
  by (auto simp add: getSession_def persistSession_def split: option.splits)

lemma user_setUser [simp]: "user (setUser u s) = u"
  by (simp add: setUser_def)
lemma user_setError [simp]: "user (setError e s) = user s"
  by (simp add: setError_def)
lemma user_setLoading [simp]: "user (setLoading e s) = user s"
  by (simp add: setLoading_def)
lemma user_persistSession [simp]: "user (persistSession e s) = user s"
  by (simp add: persistSession_def split: option.splits)
lemma user_persistAccounts [simp]: "user (persistAccounts e s) = user s"
  by (simp add: persistAccounts_def split: option.splits)
lemma user_persistResetTokens [simp]: "user (persistResetTokens e s) = user s"
  by (simp add: persistResetTokens_def split: option.splits)

lemma window_None_setUser [simp]: "(window (setUser u s) = None) = (window s = None)"
  by (simp add: setUser_def)
lemma window_None_setError [simp]: "(window (setError u s) = None) = (window s = None)"
  by (simp add: setError_def)
lemma window_None_setLoading [simp]: "(window (setLoading u s) = None) = (window s = None)"
  by (simp add: setLoading_def)
lemma window_None_persistSession [simp]: "(window (persistSession u s) = None) = (window s = None)"
  by (simp add: persistSession_def split: option.splits)
lemma window_None_persistAccounts [simp]: "(window (persistAccounts u s) = None) = (window s = None)"
  by (simp add: persistAccounts_def split: option.splits)
lemma window_None_persistResetTokens [simp]: "(window (persistResetTokens u s) = None) = (window s = None)"
  by (simp add: persistResetTokens_def split: option.splits)

section \<open>Sign-out\<close>

text \<open>
  Claim C9. From every state, \<open>signOut\<close> resolves (it never rejects), leaves no Session
  Pointer and leaves \<open>isAuthenticated\<close> false; a second call in a row does the same and
  changes nothing more.
\<close>

theorem signOut_twice:
  "fst (signOut s) = Inr ()
   \<and> getSession (snd (signOut s)) = None
   \<and> \<not> isAuthenticated (snd (signOut s))
   \<and> fst (signOut (snd (signOut s))) = Inr ()
   \<and> getSession (snd (signOut (snd (signOut s)))) = None
   \<and> \<not> isAuthenticated (snd (signOut (snd (signOut s))))
   \<and> snd (signOut (snd (signOut s))) = snd (signOut s)"
  by (simp add: signOut_def runAuthAction_def isAuthenticated_def getSession_def
      setUser_def setError_def persistSession_def split: option.splits)

section \<open>The outcomes of sign-up and sign-in\<close>

lemma signUp_fresh:
  "\<not> list_ex (\<lambda>a. email a = toLowerCase em) (getAccounts s) \<Longrightarrow>
   signUp subtle now em pw s =
     (Inr (),
      persistSession (Some (toLowerCase em))
        (setUser (Some \<lparr>email = toLowerCase em, createdAt = now\<rparr>)
           (persistAccounts
              (getAccounts s @
                 [\<lparr>email = toLowerCase em, createdAt = now,
                   passwordHash = hashString subtle pw\<rparr>])
              (setError None s))))"
  by (simp add: signUp_def runAuthAction_def Let_def)

lemma signUp_duplicate:
  "list_ex (\<lambda>a. email a = toLowerCase em) (getAccounts s) \<Longrightarrow>
   signUp subtle now em pw s = (Inl DuplicateAccount, setError (Some DuplicateAccount) (setError None s))"
  by (simp add: signUp_def runAuthAction_def Let_def)

lemma signIn_unknown:
  "find (\<lambda>a. email a = toLowerCase em) (getAccounts s) = None \<Longrightarrow>
   signIn subtle em pw s = (Inl AccountNotFound, setError (Some AccountNotFound) (setError None s))"
  by (simp add: signIn_def runAuthAction_def Let_def)

lemma signIn_wrong:
  "find (\<lambda>a. email a = toLowerCase em) (getAccounts s) = Some a \<Longrightarrow>
   passwordHash a \<noteq> hashString subtle pw \<Longrightarrow>
   signIn subtle em pw s = (Inl InvalidCredential, setError (Some InvalidCredential) (setError None s))"
  by (simp add: signIn_def runAuthAction_def Let_def)

lemma signIn_right:
  "find (\<lambda>a. email a = toLowerCase em) (getAccounts s) = Some a \<Longrightarrow>
   passwordHash a = hashString subtle pw \<Longrightarrow>
   signIn subtle em pw s =
     (Inr (),
      persistSession (Some (email a))
        (setUser (Some \<lparr>email = email a, createdAt = createdAt a\<rparr>) (setError None s)))"
  by (simp add: signIn_def runAuthAction_def Let_def)

lemma getAccounts_signUp_fresh:
  "window s \<noteq> None \<Longrightarrow> \<not> list_ex (\<lambda>a. email a = toLowerCase em) (getAccounts s) \<Longrightarrow>
   getAccounts (snd (signUp subtle now em pw s)) =
     getAccounts s @ [\<lparr>email = toLowerCase em, createdAt = now,
                       passwordHash = hashString subtle pw\<rparr>]"
  by (simp add: signUp_fresh getAccounts_persistAccounts)

lemma toLowerCase_Nil [simp]: "toLowerCase [] = []"
  by (simp add: toLowerCase_def)

lemma find_snoc_fresh: "\<not> list_ex P xs \<Longrightarrow> P a \<Longrightarrow> find P (xs @ [a]) = Some a"
  by (induction xs) auto

lemma getAccounts_initialState [simp]: "getAccounts initialState = []"
  by (simp add: getAccounts_def initialState_def emptyStore_def)

lemma window_initialState [simp]: "window initialState \<noteq> None"
  by (simp add: initialState_def)

text \<open>The built-ins on the strings the examples use.\<close>

lemma toLowerCase_example: "toLowerCase ''A@b.com'' = ''a@b.com''" "toLowerCase ''a@B.COM'' = ''a@b.com''"
  by code_simp+

lemma btoa_examples: "btoa ''p'' = ''cA==''" "btoa ''px'' = ''cHg=''"
  by (simp_all add: btoa_def b64_def)

text \<open>The fallback digest tells a string from the string with one more character.\<close>

lemma b64_not_pad: "k < 64 \<Longrightarrow> b64 k \<noteq> CHR ''=''"
proof -
  let ?alphabet = "''ABCDEFGHIJKLMNOPQRSTUVWXYZabcdefghijklmnopqrstuvwxyz0123456789+/''"
  assume "k < 64"
  then have "k < length ?alphabet"
    by simp
  then have "?alphabet ! k \<in> set ?alphabet"
    by (rule nth_mem)
  moreover have "CHR ''='' \<notin> set ?alphabet"
    by simp
  ultimately show ?thesis
    unfolding b64_def by metis
qed

lemma btoa_units_snoc: "btoa_units (xs @ [x]) \<noteq> btoa_units xs"
proof (induction xs rule: btoa_units.induct)
  case 1
  show ?case by simp
next
  case (2 a)
  have "(x mod 16) * 4 < 64"
    by simp
  then have "b64 ((x mod 16) * 4) \<noteq> CHR ''=''"
    by (rule b64_not_pad)
  then show ?case by simp
next
  case (3 a b)
  have "b64 (x mod 64) \<noteq> CHR ''=''"
    by (rule b64_not_pad) simp
  then show ?case by simp
next
  case (4 a b c rest)
  then show ?case by simp
qed

lemma btoa_snoc: "btoa (v @ [c]) \<noteq> btoa v"
  by (simp add: btoa_def btoa_units_snoc)




text \<open>
  Claim C10. The core validates nothing: on a store without accounts, sign-up with the
  empty email and the empty password succeeds, stores the account whose email is the empty
  string, leaves the provider authenticated, and the sign-in with the same two empty
  strings succeeds.
\<close>

theorem signUp_empty_strings:
  assumes "window s \<noteq> None" and "getAccounts s = []"
  shows "(let s1 = snd (signUp subtle now '''' '''' s);
              s2 = snd (signIn subtle '''' '''' s1)
          in fst (signUp subtle now '''' '''' s) = Inr ()
           \<and> getAccounts s1 = [\<lparr>email = '''', createdAt = now, passwordHash = hashString subtle ''''\<rparr>]
           \<and> toLowerCase (email (hd (getAccounts s1))) = ''''
           \<and> user s1 = Some \<lparr>email = '''', createdAt = now\<rparr>
           \<and> isAuthenticated s1
           \<and> fst (signIn subtle '''' '''' s1) = Inr ()
           \<and> user s2 = Some \<lparr>email = '''', createdAt = now\<rparr>
           \<and> isAuthenticated s2)"
proof -
  let ?acc = "\<lparr>email = '''', createdAt = now, passwordHash = hashString subtle ''''\<rparr>"
  let ?s1 = "snd (signUp subtle now '''' '''' s)"
  have fresh: "\<not> list_ex (\<lambda>a. email a = toLowerCase '''') (getAccounts s)"
    using assms(2) by simp
  have up: "fst (signUp subtle now '''' '''' s) = Inr ()"
    by (simp add: signUp_fresh [OF fresh])
  have accs: "getAccounts ?s1 = [?acc]"
    using getAccounts_signUp_fresh [OF assms(1) fresh, of subtle now "''''"] assms(2) by simp
  have u1: "user ?s1 = Some \<lparr>email = '''', createdAt = now\<rparr>"
    by (simp add: signUp_fresh [OF fresh])
  have found: "find (\<lambda>a. email a = toLowerCase '''') (getAccounts ?s1) = Some ?acc"
    by (simp add: accs)
  have inn: "signIn subtle '''' '''' ?s1 =
     (Inr (), persistSession (Some (email ?acc))
        (setUser (Some \<lparr>email = email ?acc, createdAt = createdAt ?acc\<rparr>) (setError None ?s1)))"
    by (rule signIn_right [OF found]) simp
  show ?thesis
    by (simp add: Let_def up accs u1 inn isAuthenticated_def)
qed

theorem signUp_empty_strings_witness:
  "window initialState \<noteq> None \<and> getAccounts initialState = []
   \<and> fst (signUp None 0 '''' '''' initialState) = Inr ()
   \<and> getAccounts (snd (signUp None 0 '''' '''' initialState)) = [\<lparr>email = '''', createdAt = 0, passwordHash = ''''\<rparr>]
   \<and> fst (signIn None '''' '''' (snd (signUp None 0 '''' '''' initialState))) = Inr ()"
  using signUp_empty_strings [of initialState None 0]
  by (simp add: Let_def hashString_def btoa_def)

section \<open>Session resolution\<close>

lemma loadAccountForEmail_setError [simp]:
  "loadAccountForEmail em (setError e s) = loadAccountForEmail em s"
  by (simp add: loadAccountForEmail_def split: option.splits)

lemma refreshSession_dangling:
  "loadAccountForEmail (getSession s) s = None \<Longrightarrow>
   refreshSession s = (Inr False, setUser None (persistSession None (setError None s)))"
  by (simp add: refreshSession_def runAuthAction_def Let_def)

lemma refreshSession_found:
  "loadAccountForEmail (getSession s) s = Some a \<Longrightarrow>
   refreshSession s =
     (Inr True, setUser (Some \<lparr>email = email a, createdAt = createdAt a\<rparr>) (setError None s))"
  by (simp add: refreshSession_def runAuthAction_def Let_def)

lemma initialiseSession_dangling:
  "loadAccountForEmail (getSession s) s = None \<Longrightarrow>
   initialiseSession s = setLoading False (setUser None (persistSession None s))"
  by (simp add: initialiseSession_def Let_def)

lemma find_None_list_ex: "(find P xs = None) = (\<not> list_ex P xs)"
  by (auto simp add: find_None_iff list_ex_iff)

lemma loadAccountForEmail_dangling:
  "\<not> list_ex (\<lambda>a. email a = toLowerCase p) (getAccounts s) \<Longrightarrow>
   loadAccountForEmail (Some p) s = None"
  by (simp add: loadAccountForEmail_def find_None_list_ex)

text \<open>
  Claim C4. When the Session Pointer holds an email under whose normalized form the
  Accounts collection has no account, \<open>refreshSession\<close> resolves to false, removes the
  pointer, sets the user to absent, and \<open>isAuthenticated\<close> is false afterwards; the
  start-up resolution clears pointer and user in the same way.
\<close>

theorem refreshSession_self_heal:
  assumes ptr: "getSession s = Some p"
    and dangling: "\<not> list_ex (\<lambda>a. email a = toLowerCase p) (getAccounts s)"
  shows "fst (refreshSession s) = Inr False
       \<and> getSession (snd (refreshSession s)) = None
       \<and> user (snd (refreshSession s)) = None
       \<and> \<not> isAuthenticated (snd (refreshSession s))
       \<and> getSession (initialiseSession s) = None
       \<and> user (initialiseSession s) = None
       \<and> \<not> isAuthenticated (initialiseSession s)"
proof -
  have none: "loadAccountForEmail (getSession s) s = None"
    unfolding ptr by (rule loadAccountForEmail_dangling [OF dangling])
  show ?thesis
    by (simp add: refreshSession_dangling [OF none] initialiseSession_dangling [OF none]
        getSession_persistSession isAuthenticated_def)
qed


theorem refreshSession_self_heal_witness:
  "getSession danglingState = Some ''ghost@x.io''
   \<and> \<not> list_ex (\<lambda>a. email a = toLowerCase ''ghost@x.io'') (getAccounts danglingState)
   \<and> fst (refreshSession danglingState) = Inr False
   \<and> getSession (snd (refreshSession danglingState)) = None
   \<and> \<not> isAuthenticated (snd (refreshSession danglingState))
   \<and> getSession (initialiseSession danglingState) = None"
proof -
  have p: "getSession danglingState = Some ''ghost@x.io''"
    by (simp add: danglingState_def getSession_def)
  have a: "getAccounts danglingState = []"
    by (simp add: danglingState_def getAccounts_def emptyStore_def)
  have d: "\<not> list_ex (\<lambda>a. email a = toLowerCase ''ghost@x.io'') (getAccounts danglingState)"
    by (simp add: a)
  show ?thesis
    using refreshSession_self_heal [OF p d] p d by simp
qed

section \<open>The outcomes of a password reset\<close>

lemma findIndex_Some:
  "findIndex P xs = Some i \<Longrightarrow> i < length xs \<and> P (xs ! i) \<and> find P xs = Some (xs ! i)"
proof (induction xs arbitrary: i)
  case Nil
  then show ?case by simp
next
  case (Cons x xs)
  show ?case
  proof (cases "P x")
    case True
    with Cons.prems show ?thesis by simp
  next
    case False
    with Cons.prems obtain j where j: "findIndex P xs = Some j" and i: "i = Suc j"
      by auto
    from Cons.IH [OF j] False i show ?thesis by simp
  qed
qed

lemma findIndex_None: "(findIndex P xs = None) = (\<not> list_ex P xs)"
  by (induction xs) auto

lemma find_findIndex:
  "find P xs = Some a \<Longrightarrow> \<exists>i. findIndex P xs = Some i \<and> xs ! i = a"
proof -
  assume f: "find P xs = Some a"
  then have "list_ex P xs"
    using find_None_list_ex [of P xs] by auto
  then obtain i where i: "findIndex P xs = Some i"
    using findIndex_None [of P xs] by auto
  with findIndex_Some [OF i] f show ?thesis by simp
qed

lemma find_Some_holds: "find P xs = Some a \<Longrightarrow> P a \<and> a \<in> set xs"
  by (induction xs) (auto split: if_splits)

lemma window_of_accounts: "getAccounts s \<noteq> [] \<Longrightarrow> window s \<noteq> None"
  by (cases "window s") (simp_all add: getAccounts_def)

lemma window_of_tokens: "getResetTokens s \<noteq> [] \<Longrightarrow> window s \<noteq> None"
  by (cases "window s") (simp_all add: getResetTokens_def)

lemma setError_setError [simp]: "setError e (setError e' s) = setError e s"
  by (simp add: setError_def)

lemma requestPasswordReset_unknown:
  "find (\<lambda>a. email a = toLowerCase em) (getAccounts s) = None \<Longrightarrow>
   requestPasswordReset subtle now r em s = (Inl AccountNotFound, setError (Some AccountNotFound) s)"
  by (simp add: requestPasswordReset_def runAuthAction_def Let_def)

lemma requestPasswordReset_found:
  "find (\<lambda>a. email a = toLowerCase em) (getAccounts s) = Some a \<Longrightarrow>
   requestPasswordReset subtle now r em s =
     (Inr (generateOtp r),
      persistResetTokens
        (filter (\<lambda>t. email t \<noteq> toLowerCase em) (getResetTokens s) @
           [\<lparr>email = toLowerCase em, otpHash = hashString subtle (generateOtp r),
             expiresAt = now + 600000\<rparr>])
        (setError None s))"
  by (simp add: requestPasswordReset_def runAuthAction_def Let_def)

lemma verifyPasswordReset_none:
  "find (\<lambda>t. email t = toLowerCase em) (getResetTokens s) = None \<Longrightarrow>
   verifyPasswordReset subtle now em otp pw s = (Inl ResetNotFound, setError (Some ResetNotFound) s)"
  by (simp add: verifyPasswordReset_def runAuthAction_def Let_def)

lemma verifyPasswordReset_expired:
  "find (\<lambda>t. email t = toLowerCase em) (getResetTokens s) = Some t \<Longrightarrow>
   expiresAt t < now \<Longrightarrow>
   verifyPasswordReset subtle now em otp pw s =
     (Inl ResetExpired,
      setError (Some ResetExpired)
        (persistResetTokens (filter (\<lambda>t. email t \<noteq> toLowerCase em) (getResetTokens s))
           (setError None s)))"
  by (simp add: verifyPasswordReset_def runAuthAction_def Let_def)

lemma verifyPasswordReset_wrong:
  "find (\<lambda>t. email t = toLowerCase em) (getResetTokens s) = Some t \<Longrightarrow>
   \<not> expiresAt t < now \<Longrightarrow>
   hashString subtle otp \<noteq> otpHash t \<Longrightarrow>
   verifyPasswordReset subtle now em otp pw s = (Inl InvalidCode, setError (Some InvalidCode) s)"
  by (simp add: verifyPasswordReset_def runAuthAction_def Let_def)

lemma verifyPasswordReset_no_account:
  "find (\<lambda>t. email t = toLowerCase em) (getResetTokens s) = Some t \<Longrightarrow>
   \<not> expiresAt t < now \<Longrightarrow>
   hashString subtle otp = otpHash t \<Longrightarrow>
   findIndex (\<lambda>a. email a = toLowerCase em) (getAccounts s) = None \<Longrightarrow>
   verifyPasswordReset subtle now em otp pw s = (Inl AccountNotFound, setError (Some AccountNotFound) s)"
  by (simp add: verifyPasswordReset_def runAuthAction_def Let_def)

lemma verifyPasswordReset_match:
  assumes tok: "find (\<lambda>t. email t = toLowerCase em) (getResetTokens s) = Some t"
    and live: "\<not> expiresAt t < now"
    and code: "hashString subtle otp = otpHash t"
    and idx: "findIndex (\<lambda>a. email a = toLowerCase em) (getAccounts s) = Some i"
  shows "verifyPasswordReset subtle now em otp pw s =
     (Inr (),
      persistSession (Some (toLowerCase em))
        (setUser (Some \<lparr>email = toLowerCase em, createdAt = createdAt (getAccounts s ! i)\<rparr>)
           (persistResetTokens (filter (\<lambda>t. email t \<noteq> toLowerCase em) (getResetTokens s))
              (persistAccounts
                 ((getAccounts s)[i := (getAccounts s ! i)\<lparr>passwordHash := hashString subtle pw\<rparr>])
                 (setError None s)))))"
proof -
  from findIndex_Some [OF idx]
  have i: "i < length (getAccounts s)" and e: "email (getAccounts s ! i) = toLowerCase em"
    by simp_all
  show ?thesis
    using tok live code idx i e
    by (simp add: verifyPasswordReset_def runAuthAction_def Let_def)
qed

section \<open>The scenario's states\<close>

lemma digit_values:
  "digit 0 = CHR ''0''" "digit 1 = CHR ''1''" "digit 2 = CHR ''2''" "digit 3 = CHR ''3''"
  "digit 4 = CHR ''4''" "digit 5 = CHR ''5''" "digit 6 = CHR ''6''" "digit 7 = CHR ''7''"
  "digit 8 = CHR ''8''" "digit 9 = CHR ''9''"
  by code_simp+

lemma digit_one: "digit (Suc 0) = CHR ''1''"
  using digit_values(2) by simp

lemma digits_small: "n < 10 \<Longrightarrow> digits n = [digit n]"
  by (simp add: digits.simps)

lemma digits_large: "10 \<le> n \<Longrightarrow> digits n = digits (n div 10) @ [digit (n mod 10)]"
  by (subst digits.simps) simp

lemma generateOtp_half: "generateOtp (Dyadic 2 2) = ''550000''"
  by (simp add: generateOtp_def toString_def round53_def digits_small digits_large digit_values)

lemma toLowerCase_user: "toLowerCase ''user@test.com'' = ''user@test.com''"
  by code_simp

lemma getAccounts_withAccount:
  "getAccounts withAccount =
     [\<lparr>email = ''user@test.com'', createdAt = 0, passwordHash = hashString None ''secret1''\<rparr>]"
  unfolding withAccount_def
  by (simp add: getAccounts_signUp_fresh toLowerCase_user)

lemma getResetTokens_withAccount: "getResetTokens withAccount = []"
  unfolding withAccount_def
  by (simp add: signUp_fresh toLowerCase_user)
     (simp add: getResetTokens_def initialState_def emptyStore_def)

lemma find_withAccount:
  "find (\<lambda>a. email a = toLowerCase ''user@test.com'') (getAccounts withAccount) =
     Some \<lparr>email = ''user@test.com'', createdAt = 0, passwordHash = hashString None ''secret1''\<rparr>"
  by (simp add: getAccounts_withAccount toLowerCase_user)

lemma window_withAccount: "window withAccount \<noteq> None"
  by (rule window_of_accounts) (simp add: getAccounts_withAccount)

lemma getResetTokens_withToken:
  "getResetTokens withToken =
     [\<lparr>email = ''user@test.com'', otpHash = hashString None ''550000'', expiresAt = 601000\<rparr>]"
  unfolding withToken_def
  by (simp add: requestPasswordReset_found [OF find_withAccount] getResetTokens_persistResetTokens
      window_withAccount getResetTokens_withAccount toLowerCase_user generateOtp_half)

lemma getAccounts_withToken: "getAccounts withToken = getAccounts withAccount"
  unfolding withToken_def
  by (simp add: requestPasswordReset_found [OF find_withAccount])

lemma find_withToken:
  "find (\<lambda>t. email t = toLowerCase ''user@test.com'') (getResetTokens withToken) =
     Some \<lparr>email = ''user@test.com'', otpHash = hashString None ''550000'', expiresAt = 601000\<rparr>"
  by (simp add: getResetTokens_withToken toLowerCase_user)

lemma btoa_codes: "btoa ''550000'' = ''NTUwMDAw''" "btoa ''123456'' = ''MTIzNDU2''"
  by (simp_all add: btoa_def b64_def)

lemma getResetTokens_written:
  "window s \<noteq> None \<Longrightarrow> getResetTokens (persistResetTokens xs s) = xs"
  by (auto simp add: getResetTokens_persistResetTokens)

lemma getAccounts_written:
  "window s \<noteq> None \<Longrightarrow> getAccounts (persistAccounts xs s) = xs"
  by (auto simp add: getAccounts_persistAccounts)

section \<open>Expired and wrong codes\<close>

text \<open>
  Claim C6. When the Reset Token found for the normalized email has its \<open>expiresAt\<close> in
  the past, \<open>verifyPasswordReset\<close> is rejected with \<open>ResetExpired\<close> and writes the tokens
  back without those of that email (accounts and user as they were); a following call for
  the same email, at any time and with any code, is rejected with \<open>ResetNotFound\<close>.
\<close>

theorem verifyPasswordReset_expired_purges:
  assumes tok: "find (\<lambda>t. email t = toLowerCase em) (getResetTokens s) = Some t"
    and past: "expiresAt t < now"
  shows "(let s1 = snd (verifyPasswordReset subtle now em otp pw s)
          in fst (verifyPasswordReset subtle now em otp pw s) = Inl ResetExpired
           \<and> getResetTokens s1 = filter (\<lambda>t. email t \<noteq> toLowerCase em) (getResetTokens s)
           \<and> find (\<lambda>t. email t = toLowerCase em) (getResetTokens s1) = None
           \<and> getAccounts s1 = getAccounts s
           \<and> user s1 = user s
           \<and> fst (verifyPasswordReset subtle now' em otp' pw' s1) = Inl ResetNotFound)"
proof -
  let ?s1 = "snd (verifyPasswordReset subtle now em otp pw s)"
  note out = verifyPasswordReset_expired [OF tok past, of subtle otp pw]
  have "getResetTokens s \<noteq> []"
    using tok by auto
  then have win: "window s \<noteq> None"
    by (rule window_of_tokens)
  have toks: "getResetTokens ?s1 = filter (\<lambda>t. email t \<noteq> toLowerCase em) (getResetTokens s)"
    using win by (auto simp add: out getResetTokens_persistResetTokens)
  have gone: "find (\<lambda>t. email t = toLowerCase em) (getResetTokens ?s1) = None"
    unfolding toks by (simp add: find_None_iff)
  have again: "fst (verifyPasswordReset subtle now' em otp' pw' ?s1) = Inl ResetNotFound"
    by (simp add: verifyPasswordReset_none [OF gone])
  show ?thesis
    unfolding Let_def using toks gone again by (simp add: out)
qed

theorem verifyPasswordReset_expired_purges_witness:
  "find (\<lambda>t. email t = toLowerCase ''user@test.com'') (getResetTokens withToken) =
     Some \<lparr>email = ''user@test.com'', otpHash = hashString None ''550000'', expiresAt = 601000\<rparr>
   \<and> expiresAt \<lparr>email = ''user@test.com'', otpHash = hashString None ''550000'',
                 expiresAt = 601000\<rparr> < 601001
   \<and> fst (verifyPasswordReset None 601001 ''user@test.com'' ''550000'' ''secret2'' withToken)
       = Inl ResetExpired
   \<and> getResetTokens
        (snd (verifyPasswordReset None 601001 ''user@test.com'' ''550000'' ''secret2'' withToken))
       = []
   \<and> fst (verifyPasswordReset None 601002 ''user@test.com'' ''550000'' ''secret2''
        (snd (verifyPasswordReset None 601001 ''user@test.com'' ''550000'' ''secret2'' withToken)))
       = Inl ResetNotFound"
proof -
  have past: "expiresAt \<lparr>email = ''user@test.com'', otpHash = hashString None ''550000'',
                 expiresAt = 601000\<rparr> < 601001"
    by simp
  show ?thesis
    using verifyPasswordReset_expired_purges [OF find_withToken past,
        of None "''550000''" "''secret2''" 601002 "''550000''" "''secret2''"]
      find_withToken
    by (simp add: Let_def getResetTokens_withToken toLowerCase_user)
qed

text \<open>
  Claim C7, as the spec states it, fails on a store that holds the token and no account
  for its email: the wrong code is rejected with \<open>InvalidCode\<close>, and the right code,
  before the expiry, is rejected with \<open>AccountNotFound\<close>.
\<close>

theorem verifyPasswordReset_orphan_token_counterexample:
  "find (\<lambda>t. email t = toLowerCase ''user@test.com'') (getResetTokens orphanTokenState) =
     Some \<lparr>email = ''user@test.com'', otpHash = hashString None ''550000'', expiresAt = 601000\<rparr>
   \<and> \<not> (601000 :: int) < 2000
   \<and> hashString None ''123456'' \<noteq> hashString None ''550000''
   \<and> fst (verifyPasswordReset None 2000 ''user@test.com'' ''123456'' ''secret2''
         orphanTokenState) = Inl InvalidCode
   \<and> \<not> (601000 :: int) < 3000
   \<and> fst (verifyPasswordReset None 3000 ''user@test.com'' ''550000'' ''secret2''
         (snd (verifyPasswordReset None 2000 ''user@test.com'' ''123456'' ''secret2''
            orphanTokenState))) = Inl AccountNotFound"
proof -
  let ?t = "\<lparr>email = ''user@test.com'', otpHash = hashString None ''550000'', expiresAt = 601000\<rparr>"
  have toks: "getResetTokens orphanTokenState = [?t]"
    by (simp add: orphanTokenState_def getResetTokens_def JSON_stringify_def)
  have accs: "getAccounts orphanTokenState = []"
    by (simp add: orphanTokenState_def getAccounts_def emptyStore_def)
  have tok: "find (\<lambda>t. email t = toLowerCase ''user@test.com'') (getResetTokens orphanTokenState)
      = Some ?t"
    by (simp add: toks toLowerCase_user)
  have live: "\<not> expiresAt ?t < 2000" and live': "\<not> expiresAt ?t < 3000"
    by simp_all
  have wrong: "hashString None ''123456'' \<noteq> otpHash ?t"
    by (simp add: hashString_def btoa_codes)
  note first = verifyPasswordReset_wrong [OF tok live wrong, of "''secret2''"]
  let ?s1 = "setError (Some InvalidCode) orphanTokenState"
  have tok1: "find (\<lambda>t. email t = toLowerCase ''user@test.com'') (getResetTokens ?s1) = Some ?t"
    using tok by simp
  have right: "hashString None ''550000'' = otpHash ?t"
    by simp
  have none: "findIndex (\<lambda>a. email a = toLowerCase ''user@test.com'') (getAccounts ?s1) = None"
    by (simp add: accs)
  note second = verifyPasswordReset_no_account [OF tok1 live' right none, of "''secret2''"]
  show ?thesis
    using tok wrong by (simp add: first second)
qed

text \<open>
  Claim C7, amended. When the Reset Token found for the normalized email has not expired
  and the digest of the supplied code is not the stored one, \<open>verifyPasswordReset\<close> is
  rejected with \<open>InvalidCode\<close> and changes nothing but the error slot: the store (tokens,
  accounts, Session Pointer) and the user are as before. A following call with a code
  whose digest is the stored one, made before the expiry, then succeeds where the
  Accounts collection has an account for the email, and is rejected with
  \<open>AccountNotFound\<close> where it has none.
\<close>

theorem verifyPasswordReset_wrong_code_retry:
  assumes tok: "find (\<lambda>t. email t = toLowerCase em) (getResetTokens s) = Some t"
    and live: "\<not> expiresAt t < now"
    and wrong: "hashString subtle otp \<noteq> otpHash t"
  shows "(let s1 = snd (verifyPasswordReset subtle now em otp pw s)
          in fst (verifyPasswordReset subtle now em otp pw s) = Inl InvalidCode
           \<and> s1 = s\<lparr>error := Some InvalidCode\<rparr>
           \<and> window s1 = window s
           \<and> getResetTokens s1 = getResetTokens s
           \<and> getAccounts s1 = getAccounts s
           \<and> getSession s1 = getSession s
           \<and> user s1 = user s
           \<and> (hashString subtle otp' = otpHash t \<and> \<not> expiresAt t < now'
               \<longrightarrow> fst (verifyPasswordReset subtle now' em otp' pw' s1) =
                     (if list_ex (\<lambda>a. email a = toLowerCase em) (getAccounts s)
                      then Inr () else Inl AccountNotFound)))"
proof -
  let ?s1 = "snd (verifyPasswordReset subtle now em otp pw s)"
  note out = verifyPasswordReset_wrong [OF tok live wrong, of pw]
  have s1: "?s1 = setError (Some InvalidCode) s"
    by (simp add: out)
  have tok1: "find (\<lambda>t. email t = toLowerCase em) (getResetTokens ?s1) = Some t"
    using tok by (simp add: s1)
  have retry: "fst (verifyPasswordReset subtle now' em otp' pw' ?s1) =
      (if list_ex (\<lambda>a. email a = toLowerCase em) (getAccounts s)
       then Inr () else Inl AccountNotFound)"
    if code: "hashString subtle otp' = otpHash t" and live': "\<not> expiresAt t < now'"
  proof (cases "list_ex (\<lambda>a. email a = toLowerCase em) (getAccounts s)")
    case True
    then obtain i where "findIndex (\<lambda>a. email a = toLowerCase em) (getAccounts s) = Some i"
      using findIndex_None [of "\<lambda>a. email a = toLowerCase em" "getAccounts s"] by auto
    then have idx: "findIndex (\<lambda>a. email a = toLowerCase em) (getAccounts ?s1) = Some i"
      by (simp add: s1)
    show ?thesis
      using True by (simp add: verifyPasswordReset_match [OF tok1 live' code idx])
  next
    case False
    then have "findIndex (\<lambda>a. email a = toLowerCase em) (getAccounts s) = None"
      by (simp add: findIndex_None)
    then have none: "findIndex (\<lambda>a. email a = toLowerCase em) (getAccounts ?s1) = None"
      by (simp add: s1)
    show ?thesis
      using False by (simp add: verifyPasswordReset_no_account [OF tok1 live' code none])
  qed
  have rec: "setError (Some InvalidCode) s = s\<lparr>error := Some InvalidCode\<rparr>"
    by (simp add: setError_def)
  have win: "window (setError (Some InvalidCode) s) = window s"
    by (simp add: setError_def)
  show ?thesis
    unfolding Let_def using retry by (simp add: s1 win) (simp add: out rec)
qed

theorem verifyPasswordReset_wrong_code_retry_witness:
  "find (\<lambda>t. email t = toLowerCase ''user@test.com'') (getResetTokens withToken) =
     Some \<lparr>email = ''user@test.com'', otpHash = hashString None ''550000'', expiresAt = 601000\<rparr>
   \<and> \<not> expiresAt \<lparr>email = ''user@test.com'', otpHash = hashString None ''550000'',
                   expiresAt = 601000\<rparr> < 2000
   \<and> hashString None ''123456'' \<noteq> hashString None ''550000''
   \<and> list_ex (\<lambda>a. email a = toLowerCase ''user@test.com'') (getAccounts withToken)
   \<and> fst (verifyPasswordReset None 2000 ''user@test.com'' ''123456'' ''secret2'' withToken)
       = Inl InvalidCode
   \<and> getResetTokens
        (snd (verifyPasswordReset None 2000 ''user@test.com'' ''123456'' ''secret2'' withToken))
       = getResetTokens withToken
   \<and> fst (verifyPasswordReset None 3000 ''user@test.com'' ''550000'' ''secret2''
        (snd (verifyPasswordReset None 2000 ''user@test.com'' ''123456'' ''secret2'' withToken)))
       = Inr ()"
proof -
  let ?t = "\<lparr>email = ''user@test.com'', otpHash = hashString None ''550000'', expiresAt = 601000\<rparr>"
  have live: "\<not> expiresAt ?t < 2000"
    by simp
  have wrong: "hashString None ''123456'' \<noteq> otpHash ?t"
    by (simp add: hashString_def btoa_codes)
  have acc: "list_ex (\<lambda>a. email a = toLowerCase ''user@test.com'') (getAccounts withToken)"
    by (simp add: getAccounts_withToken getAccounts_withAccount toLowerCase_user)
  let ?s1 = "snd (verifyPasswordReset None 2000 ''user@test.com'' ''123456'' ''secret2'' withToken)"
  note th = verifyPasswordReset_wrong_code_retry [OF find_withToken live wrong,
      of "''secret2''" "''550000''" 3000 "''secret2''", unfolded Let_def]
  from th have a: "fst (verifyPasswordReset None 2000 ''user@test.com'' ''123456'' ''secret2''
      withToken) = Inl InvalidCode"
    by (rule conjunct1)
  from th have b: "getResetTokens ?s1 = getResetTokens withToken"
    by blast
  from th have "hashString None ''550000'' = otpHash ?t \<and> \<not> expiresAt ?t < 3000
     \<longrightarrow> fst (verifyPasswordReset None 3000 ''user@test.com'' ''550000'' ''secret2'' ?s1) =
         (if list_ex (\<lambda>a. email a = toLowerCase ''user@test.com'') (getAccounts withToken)
          then Inr () else Inl AccountNotFound)"
    by blast
  with acc have c: "fst (verifyPasswordReset None 3000 ''user@test.com'' ''550000'' ''secret2'' ?s1)
      = Inr ()"
    by simp
  from wrong have w: "hashString None ''123456'' \<noteq> hashString None ''550000''"
    by simp
  show ?thesis
    using find_withToken live w acc a b c by blast
qed

section \<open>A successful reset\<close>

lemma getAccounts_withNamelessAccount:
  "getAccounts withNamelessAccount =
     [\<lparr>email = '''', createdAt = 0, passwordHash = hashString None ''secret1''\<rparr>]"
  unfolding withNamelessAccount_def
  by (simp add: getAccounts_signUp_fresh)

lemma getResetTokens_withNamelessAccount: "getResetTokens withNamelessAccount = []"
  unfolding withNamelessAccount_def
  by (simp add: signUp_fresh)
     (simp add: getResetTokens_def initialState_def emptyStore_def)

lemma find_withNamelessAccount:
  "find (\<lambda>a. email a = toLowerCase '''') (getAccounts withNamelessAccount) =
     Some \<lparr>email = '''', createdAt = 0, passwordHash = hashString None ''secret1''\<rparr>"
  by (simp add: getAccounts_withNamelessAccount)

lemma window_withNamelessAccount: "window withNamelessAccount \<noteq> None"
  by (rule window_of_accounts) (simp add: getAccounts_withNamelessAccount)

lemma getResetTokens_withNamelessToken:
  "getResetTokens withNamelessToken =
     [\<lparr>email = '''', otpHash = hashString None ''550000'', expiresAt = 601000\<rparr>]"
  unfolding withNamelessToken_def
  by (simp add: requestPasswordReset_found [OF find_withNamelessAccount]
      getResetTokens_persistResetTokens window_withNamelessAccount
      getResetTokens_withNamelessAccount generateOtp_half)

lemma getAccounts_withNamelessToken:
  "getAccounts withNamelessToken =
     [\<lparr>email = '''', createdAt = 0, passwordHash = hashString None ''secret1''\<rparr>]"
  unfolding withNamelessToken_def
  by (simp add: requestPasswordReset_found [OF find_withNamelessAccount]
      getAccounts_withNamelessAccount)

lemma find_withNamelessToken:
  "find (\<lambda>t. email t = toLowerCase '''') (getResetTokens withNamelessToken) =
     Some \<lparr>email = '''', otpHash = hashString None ''550000'', expiresAt = 601000\<rparr>"
  by (simp add: getResetTokens_withNamelessToken)

lemma findIndex_withNamelessToken:
  "findIndex (\<lambda>a. email a = toLowerCase '''') (getAccounts withNamelessToken) = Some 0"
  by (simp add: getAccounts_withNamelessToken)

lemma findIndex_withToken:
  "findIndex (\<lambda>a. email a = toLowerCase ''user@test.com'') (getAccounts withToken) = Some 0"
  by (simp add: getAccounts_withToken getAccounts_withAccount toLowerCase_user)

text \<open>
  Claim C3, as the spec states it, fails for the account whose email is the empty string:
  a live token is there, the code's digest matches and the account exists, the call
  succeeds, and the Session Pointer is absent afterwards, because \<open>persistSession\<close> takes
  the empty string for no email.
\<close>

theorem verifyPasswordReset_nameless_counterexample:
  "find (\<lambda>t. email t = toLowerCase '''') (getResetTokens withNamelessToken) =
     Some \<lparr>email = '''', otpHash = hashString None ''550000'', expiresAt = 601000\<rparr>
   \<and> \<not> (601000 :: int) < 2000
   \<and> hashString None ''550000'' =
       otpHash \<lparr>email = '''', otpHash = hashString None ''550000'', expiresAt = 601000\<rparr>
   \<and> findIndex (\<lambda>a. email a = toLowerCase '''') (getAccounts withNamelessToken) = Some 0
   \<and> fst (verifyPasswordReset None 2000 '''' ''550000'' ''secret2'' withNamelessToken) = Inr ()
   \<and> isAuthenticated (snd (verifyPasswordReset None 2000 '''' ''550000'' ''secret2''
        withNamelessToken))
   \<and> getSession (snd (verifyPasswordReset None 2000 '''' ''550000'' ''secret2''
        withNamelessToken)) = None"
proof -
  let ?t = "\<lparr>email = '''', otpHash = hashString None ''550000'', expiresAt = 601000\<rparr>"
  have live: "\<not> expiresAt ?t < 2000"
    by simp
  have code: "hashString None ''550000'' = otpHash ?t"
    by simp
  note out = verifyPasswordReset_match [OF find_withNamelessToken live code
      findIndex_withNamelessToken, of "''secret2''"]
  show ?thesis
    using find_withNamelessToken findIndex_withNamelessToken
    by (simp add: out getSession_persistSession isAuthenticated_def)
qed


text \<open>
  Claim C3, amended. When the Reset Token found for the normalized email has not expired,
  the digest of the supplied code is the stored one and the account is at index \<open>i\<close> of
  the Accounts collection, \<open>verifyPasswordReset\<close> succeeds; it replaces that account's
  \<open>passwordHash\<close> by the digest of the new password, with email and \<open>createdAt\<close> of the
  account and every other account as they were; it removes the tokens of that email;
  the user becomes that account's projection; the Session Pointer becomes the account's
  email when that is not the empty string, and is removed when it is; and the same call
  repeated at once is rejected with \<open>ResetNotFound\<close>.
\<close>

theorem verifyPasswordReset_success_once:
  assumes tok: "find (\<lambda>t. email t = toLowerCase em) (getResetTokens s) = Some t"
    and live: "\<not> expiresAt t < now"
    and code: "hashString subtle otp = otpHash t"
    and idx: "findIndex (\<lambda>a. email a = toLowerCase em) (getAccounts s) = Some i"
  shows "(let s1 = snd (verifyPasswordReset subtle now em otp pw s);
              account = getAccounts s ! i
          in fst (verifyPasswordReset subtle now em otp pw s) = Inr ()
           \<and> email account = toLowerCase em
           \<and> getAccounts s1 =
                (getAccounts s)[i := account\<lparr>passwordHash := hashString subtle pw\<rparr>]
           \<and> length (getAccounts s1) = length (getAccounts s)
           \<and> passwordHash (getAccounts s1 ! i) = hashString subtle pw
           \<and> email (getAccounts s1 ! i) = email account
           \<and> createdAt (getAccounts s1 ! i) = createdAt account
           \<and> (\<forall>j. j \<noteq> i \<longrightarrow> getAccounts s1 ! j = getAccounts s ! j)
           \<and> getResetTokens s1 = filter (\<lambda>t. email t \<noteq> toLowerCase em) (getResetTokens s)
           \<and> find (\<lambda>t. email t = toLowerCase em) (getResetTokens s1) = None
           \<and> user s1 = Some \<lparr>email = email account, createdAt = createdAt account\<rparr>
           \<and> isAuthenticated s1
           \<and> getSession s1 = (if email account = [] then None else Some (email account))
           \<and> fst (verifyPasswordReset subtle now' em otp pw' s1) = Inl ResetNotFound)"
proof -
  let ?s1 = "snd (verifyPasswordReset subtle now em otp pw s)"
  let ?acc = "getAccounts s ! i"
  let ?accs = "(getAccounts s)[i := ?acc\<lparr>passwordHash := hashString subtle pw\<rparr>]"
  note out = verifyPasswordReset_match [OF tok live code idx, of pw]
  from findIndex_Some [OF idx]
  have i: "i < length (getAccounts s)" and e: "email ?acc = toLowerCase em"
    by simp_all
  have "getResetTokens s \<noteq> []"
    using tok by auto
  then have win: "window s \<noteq> None"
    by (rule window_of_tokens)
  have ok: "fst (verifyPasswordReset subtle now em otp pw s) = Inr ()"
    by (simp add: out)
  have accs: "getAccounts ?s1 = ?accs"
    using win by (auto simp add: out getAccounts_persistAccounts)
  have at_i: "getAccounts ?s1 ! i = ?acc\<lparr>passwordHash := hashString subtle pw\<rparr>"
    unfolding accs using i by simp
  have others: "\<forall>j. j \<noteq> i \<longrightarrow> getAccounts ?s1 ! j = getAccounts s ! j"
    unfolding accs by simp
  have toks: "getResetTokens ?s1 = filter (\<lambda>t. email t \<noteq> toLowerCase em) (getResetTokens s)"
    using win by (auto simp add: out getResetTokens_persistResetTokens)
  have gone: "find (\<lambda>t. email t = toLowerCase em) (getResetTokens ?s1) = None"
    unfolding toks by (simp add: find_None_iff)
  have usr: "user ?s1 = Some \<lparr>email = email ?acc, createdAt = createdAt ?acc\<rparr>"
    by (simp add: out e)
  have ptr: "getSession ?s1 = (if email ?acc = [] then None else Some (email ?acc))"
    using win by (auto simp add: out e getSession_persistSession)
  have again: "fst (verifyPasswordReset subtle now' em otp pw' ?s1) = Inl ResetNotFound"
    by (simp add: verifyPasswordReset_none [OF gone])
  have len: "length (getAccounts ?s1) = length (getAccounts s)"
    unfolding accs by simp
  show ?thesis
    unfolding Let_def
    using ok e accs len at_i others toks gone usr ptr again
    by (simp add: isAuthenticated_def)
qed

theorem verifyPasswordReset_success_once_witness:
  "find (\<lambda>t. email t = toLowerCase ''user@test.com'') (getResetTokens withToken) =
     Some \<lparr>email = ''user@test.com'', otpHash = hashString None ''550000'', expiresAt = 601000\<rparr>
   \<and> \<not> expiresAt \<lparr>email = ''user@test.com'', otpHash = hashString None ''550000'',
                   expiresAt = 601000\<rparr> < 2000
   \<and> hashString None ''550000'' =
       otpHash \<lparr>email = ''user@test.com'', otpHash = hashString None ''550000'',
                expiresAt = 601000\<rparr>
   \<and> findIndex (\<lambda>a. email a = toLowerCase ''user@test.com'') (getAccounts withToken) = Some 0
   \<and> fst (verifyPasswordReset None 2000 ''user@test.com'' ''550000'' ''secret2'' withToken)
       = Inr ()
   \<and> getAccounts
        (snd (verifyPasswordReset None 2000 ''user@test.com'' ''550000'' ''secret2'' withToken))
       = [\<lparr>email = ''user@test.com'', createdAt = 0, passwordHash = hashString None ''secret2''\<rparr>]
   \<and> getSession
        (snd (verifyPasswordReset None 2000 ''user@test.com'' ''550000'' ''secret2'' withToken))
       = Some ''user@test.com''
   \<and> fst (verifyPasswordReset None 2001 ''user@test.com'' ''550000'' ''secret2''
        (snd (verifyPasswordReset None 2000 ''user@test.com'' ''550000'' ''secret2'' withToken)))
       = Inl ResetNotFound"
proof -
  let ?t = "\<lparr>email = ''user@test.com'', otpHash = hashString None ''550000'', expiresAt = 601000\<rparr>"
  let ?s1 = "snd (verifyPasswordReset None 2000 ''user@test.com'' ''550000'' ''secret2'' withToken)"
  have live: "\<not> expiresAt ?t < 2000"
    by simp
  have code: "hashString None ''550000'' = otpHash ?t"
    by simp
  note th = verifyPasswordReset_success_once [OF find_withToken live code findIndex_withToken,
      of "''secret2''" 2001 "''secret2''", unfolded Let_def]
  from th have a: "fst (verifyPasswordReset None 2000 ''user@test.com'' ''550000'' ''secret2''
      withToken) = Inr ()"
    by (rule conjunct1)
  from th have "getAccounts ?s1 =
      (getAccounts withToken)[0 := (getAccounts withToken ! 0)
         \<lparr>passwordHash := hashString None ''secret2''\<rparr>]"
    by blast
  then have b: "getAccounts ?s1 =
      [\<lparr>email = ''user@test.com'', createdAt = 0, passwordHash = hashString None ''secret2''\<rparr>]"
    by (simp add: getAccounts_withToken getAccounts_withAccount)
  from th have "getSession ?s1 =
      (if email (getAccounts withToken ! 0) = [] then None
       else Some (email (getAccounts withToken ! 0)))"
    by blast
  then have c: "getSession ?s1 = Some ''user@test.com''"
    by (simp add: getAccounts_withToken getAccounts_withAccount)
  from th have d: "fst (verifyPasswordReset None 2001 ''user@test.com'' ''550000'' ''secret2'' ?s1)
      = Inl ResetNotFound"
    by blast
  show ?thesis
    using find_withToken live code findIndex_withToken a b c d by blast
qed

section \<open>The one-time code\<close>

lemma digit_table:
  "\<forall>d\<in>set [0..<10]. digit d \<in> set ''0123456789'' \<and> (0 < d \<longrightarrow> digit d \<noteq> CHR ''0'')"
  by code_simp

lemma digit_decimal: "d < 10 \<Longrightarrow> digit d \<in> set ''0123456789''"
  using digit_table by (simp del: upt_rec_numeral)

lemma digit_nonzero: "0 < d \<Longrightarrow> d < 10 \<Longrightarrow> digit d \<noteq> CHR ''0''"
  using digit_table by (simp del: upt_rec_numeral)

lemma digits_decimal: "c \<in> set (digits n) \<Longrightarrow> c \<in> set ''0123456789''"
proof (induction n rule: digits.induct)
  case (1 n)
  show ?case
  proof (cases "n < 10")
    case True
    with "1.prems" show ?thesis
      using digit_decimal [of n] by (simp add: digits_small)
  next
    case False
    then have large: "10 \<le> n" by simp
    from "1.prems" have "c \<in> set (digits (n div 10)) \<or> c = digit (n mod 10)"
      by (auto simp add: digits_large [OF large])
    then show ?thesis
    proof
      assume "c \<in> set (digits (n div 10))"
      with "1.IH" False show ?thesis by blast
    next
      assume "c = digit (n mod 10)"
      then show ?thesis
        using digit_decimal [of "n mod 10"] by simp
    qed
  qed
qed

lemma digits_not_Nil: "digits n \<noteq> []"
  by (cases "n < 10") (simp_all add: digits_small digits_large)

lemma hd_digits: "0 < n \<Longrightarrow> hd (digits n) \<noteq> CHR ''0''"
proof (induction n rule: digits.induct)
  case (1 n)
  show ?case
  proof (cases "n < 10")
    case True
    with "1.prems" show ?thesis
      by (simp add: digits_small digit_nonzero)
  next
    case False
    then have large: "10 \<le> n" by simp
    then have "0 < n div 10" by simp
    with "1.IH" False have "hd (digits (n div 10)) \<noteq> CHR ''0''" by blast
    then show ?thesis
      by (simp add: digits_large [OF large] digits_not_Nil)
  qed
qed

lemma length_digits: "10 ^ k \<le> n \<Longrightarrow> n < 10 ^ Suc k \<Longrightarrow> length (digits n) = Suc k"
proof (induction k arbitrary: n)
  case 0
  then show ?case by (simp add: digits_small)
next
  case (Suc k)
  have "(10::nat) \<le> 10 ^ Suc k" by simp
  with Suc.prems have large: "10 \<le> n" by linarith
  from Suc.prems have "10 ^ k \<le> n div 10" and "n div 10 < 10 ^ Suc k"
    by simp_all
  then have "length (digits (n div 10)) = Suc k"
    by (rule Suc.IH)
  then show ?case
    by (simp add: digits_large [OF large])
qed

lemma toString_six:
  assumes "100000 \<le> k" and "k \<le> 999999"
  shows "length (toString k) = 6 \<and> (\<forall>c\<in>set (toString k). c \<in> set ''0123456789'')
       \<and> hd (toString k) \<noteq> CHR ''0''"
proof -
  have k: "toString k = digits (nat k)"
    using assms(1) by (simp add: toString_def)
  have "10 ^ 5 \<le> nat k" and "nat k < 10 ^ Suc 5"
    using assms by simp_all
  then have "length (digits (nat k)) = Suc 5"
    by (rule length_digits)
  moreover have "hd (digits (nat k)) \<noteq> CHR ''0''"
    using assms(1) by (intro hd_digits) simp
  ultimately show ?thesis
    unfolding k using digits_decimal by auto
qed

text \<open>Rounding to 53 bits: what it keeps, and the bounds it respects.\<close>

lemma bitLength_less: "n < 2 ^ bitLength n"
proof (induction n rule: bitLength.induct)
  case (1 n)
  show ?case
  proof (cases "n = 0")
    case True
    then show ?thesis by (simp add: bitLength.simps)
  next
    case False
    with "1.IH" have "n div 2 < 2 ^ bitLength (n div 2)" by simp
    then have "n < 2 * 2 ^ bitLength (n div 2)" by linarith
    with False show ?thesis by (simp add: bitLength.simps [of n])
  qed
qed

lemma bitLength_le: "n < 2 ^ b \<Longrightarrow> bitLength n \<le> b"
proof (induction n arbitrary: b rule: bitLength.induct)
  case (1 n)
  show ?case
  proof (cases "n = 0")
    case True
    then show ?thesis by (simp add: bitLength.simps)
  next
    case False
    with "1.prems" obtain c where b: "b = Suc c"
      by (cases b) auto
    with "1.prems" have "n div 2 < 2 ^ c" by simp
    with "1.IH" False have "bitLength (n div 2) \<le> c" by simp
    with False b show ?thesis by (simp add: bitLength.simps [of n])
  qed
qed

lemma bitLength_ge: "2 ^ b \<le> n \<Longrightarrow> Suc b \<le> bitLength n"
proof -
  assume "2 ^ b \<le> n"
  with bitLength_less [of n] have "(2::nat) ^ b < 2 ^ bitLength n" by linarith
  then have "b < bitLength n" by (simp add: power_strict_increasing_iff)
  then show ?thesis by simp
qed

lemma round53_small: "n < 2 ^ 53 \<Longrightarrow> round53 n = n"
  by (simp add: round53_def)

lemma round53_upper:
  assumes big: "2 ^ 53 \<le> n"
    and dvd: "2 ^ (bitLength n - 53) dvd Y"
    and near: "n < Y + 2 ^ (bitLength n - 53 - 1)"
  shows "round53 n \<le> Y"
proof -
  define s where "s = bitLength n - 53"
  define q where "q = n div 2 ^ s"
  define rem where "rem = n mod 2 ^ s"
  from bitLength_ge [OF big] have s: "1 \<le> s" by (simp add: s_def)
  then have half: "(2::nat) ^ s = 2 * 2 ^ (s - 1)"
    by (cases s) simp_all
  from dvd obtain y where Y: "Y = y * 2 ^ s"
    unfolding s_def by (auto simp add: mult.commute)
  have n: "n = q * 2 ^ s + rem"
    unfolding q_def rem_def by (rule div_mult_mod_eq [symmetric])
  have r: "round53 n = (if rem > 2 ^ (s - 1) \<or> (rem = 2 ^ (s - 1) \<and> odd q) then q + 1 else q) * 2 ^ s"
    using big by (simp add: round53_def Let_def s_def q_def rem_def)
  from near have near': "n < y * 2 ^ s + 2 ^ (s - 1)"
    by (simp add: Y s_def)
  have "q \<le> y"
  proof (rule ccontr)
    assume "\<not> q \<le> y"
    then have "y + 1 \<le> q" by simp
    then have "(y + 1) * 2 ^ s \<le> q * 2 ^ s" by (rule mult_le_mono1)
    with n have "y * 2 ^ s + 2 ^ s \<le> n" by simp
    with near' half show False by simp
  qed
  then consider "q < y" | "q = y" by linarith
  then show ?thesis
  proof cases
    case 1
    then have "q + 1 \<le> y" by simp
    then have "(q + 1) * 2 ^ s \<le> y * 2 ^ s" by (rule mult_le_mono1)
    moreover have "round53 n \<le> (q + 1) * 2 ^ s"
      unfolding r by simp
    ultimately show ?thesis by (simp add: Y)
  next
    case 2
    with n near' have "rem < 2 ^ (s - 1)" by simp
    then have "round53 n = q * 2 ^ s"
      unfolding r by simp
    with 2 show ?thesis by (simp add: Y)
  qed
qed

lemma round53_le:
  assumes le: "n \<le> Y" and dvd: "2 ^ (bitLength n - 53) dvd Y"
  shows "round53 n \<le> Y"
proof (cases "n < 2 ^ 53")
  case True
  with le show ?thesis by (simp add: round53_small)
next
  case False
  then have big: "2 ^ 53 \<le> n" by simp
  have "(0::nat) < 2 ^ (bitLength n - 53 - 1)" by simp
  with le have "n < Y + 2 ^ (bitLength n - 53 - 1)" by linarith
  with big dvd show ?thesis by (rule round53_upper)
qed

lemma round53_ge:
  assumes le: "Y \<le> n" and dvd: "2 ^ (bitLength n - 53) dvd Y"
  shows "Y \<le> round53 n"
proof (cases "n < 2 ^ 53")
  case True
  with le show ?thesis by (simp add: round53_small)
next
  case False
  define s where "s = bitLength n - 53"
  define q where "q = n div 2 ^ s"
  from dvd obtain y where Y: "Y = y * 2 ^ s"
    unfolding s_def by (auto simp add: mult.commute)
  have "y \<le> q"
    using le unfolding Y q_def by (simp add: less_eq_div_iff_mult_less_eq)
  then have "y * 2 ^ s \<le> q * 2 ^ s" by (rule mult_le_mono1)
  also have "q * 2 ^ s \<le> round53 n"
    using False by (simp add: round53_def Let_def s_def q_def)
  finally show ?thesis by (simp add: Y)
qed


lemma pow2_dvd_scaled: "a \<le> b \<Longrightarrow> (2::nat) ^ a dvd c * 2 ^ b"
  by (simp add: le_imp_power_dvd)

lemma bitLength_excess: "n < 2 ^ (b + 53) \<Longrightarrow> bitLength n - 53 \<le> b"
  using bitLength_le [of n "b + 53"] by simp

lemma otp_from_sum:
  assumes lo: "100000 * 2 ^ k \<le> (S::nat)" and hi: "S < 1000000 * 2 ^ k"
  shows "100000 \<le> S div 2 ^ k \<and> S div 2 ^ k \<le> 999999"
proof -
  have "100000 \<le> S div 2 ^ k"
    using lo by (simp add: less_eq_div_iff_mult_less_eq)
  moreover have "S div 2 ^ k < 1000000"
    using hi by (simp add: div_less_iff_less_mult)
  ultimately show ?thesis by simp
qed

lemma sum_bounds:
  assumes P: "P \<le> c * 2 ^ j" and k: "k = i + j"
    and room: "100000 * 2 ^ i + c < 1000000 * 2 ^ i"
    and bits: "1000000 * 2 ^ i \<le> (2::nat) ^ 53"
  shows "100000 * 2 ^ k \<le> round53 (100000 * 2 ^ k + P)
       \<and> round53 (100000 * 2 ^ k + P) < 1000000 * 2 ^ k"
proof -
  let ?A = "100000 * 2 ^ k + P"
  let ?Y = "(100000 * 2 ^ i + c) * 2 ^ j"
  have A_le: "?A \<le> ?Y"
    using P by (simp add: k power_add algebra_simps)
  have Y_lt: "?Y < (1000000 * 2 ^ i) * 2 ^ j"
    using room by simp
  have "(1000000 * 2 ^ i) * 2 ^ j \<le> 2 ^ 53 * (2::nat) ^ j"
    using bits by (rule mult_le_mono1)
  with Y_lt A_le have "?A < 2 ^ 53 * 2 ^ j"
    by linarith
  also have "(2::nat) ^ 53 * 2 ^ j = 2 ^ (j + 53)"
    by (simp only: power_add mult.commute)
  finally have s: "bitLength ?A - 53 \<le> j"
    by (rule bitLength_excess)
  have "round53 ?A \<le> ?Y"
    using A_le pow2_dvd_scaled [OF s] by (rule round53_le)
  then have "round53 ?A < (1000000 * 2 ^ i) * 2 ^ j"
    using Y_lt by (rule le_less_trans)
  also have "(1000000 * 2 ^ i) * 2 ^ j = 1000000 * (2::nat) ^ k"
    by (simp add: k power_add)
  finally have hi: "round53 ?A < 1000000 * 2 ^ k" .
  have L: "100000 * (2::nat) ^ k = (100000 * 2 ^ i) * 2 ^ j"
    by (simp add: k power_add)
  have "(2::nat) ^ (bitLength ?A - 53) dvd (100000 * 2 ^ i) * 2 ^ j"
    by (rule pow2_dvd_scaled [OF s])
  then have d: "(2::nat) ^ (bitLength ?A - 53) dvd 100000 * 2 ^ k"
    by (simp only: L)
  have "100000 * 2 ^ k \<le> ?A"
    by simp
  then have "100000 * 2 ^ k \<le> round53 ?A"
    using d by (rule round53_ge)
  with hi show ?thesis by simp
qed


lemma product_small:
  assumes m: "m < 2 ^ k" and k: "k \<le> 33"
  shows "round53 (m * 900000) = m * 900000 \<and> m * 900000 < 900000 * 2 ^ k"
proof -
  have "(2::nat) ^ k \<le> 2 ^ 33"
    using k by (rule power_increasing) simp
  with m have "m < 2 ^ 33" by linarith
  then have "m * 900000 < 2 ^ 53" by simp
  then have "round53 (m * 900000) = m * 900000"
    by (rule round53_small)
  with m show ?thesis by simp
qed

lemma product_middle:
  assumes m: "m < 2 ^ k" and k: "k = 33 + j" and j: "j \<le> 20"
  shows "round53 (m * 900000) \<le> (900000 * 2 ^ 33 - 1) * 2 ^ j"
proof -
  let ?X = "m * 900000"
  let ?Y = "(900000 * 2 ^ 33 - 1) * (2::nat) ^ j"
  have pk: "(2::nat) ^ k = 2 ^ 33 * 2 ^ j"
    by (simp only: k power_add)
  have Y: "?Y + 2 ^ j = 900000 * 2 ^ k"
    by (simp add: pk algebra_simps)
  from m have "m + 1 \<le> 2 ^ k" by simp
  then have "(m + 1) * 900000 \<le> 2 ^ k * 900000"
    by (rule mult_le_mono1)
  then have "?X + 900000 \<le> 900000 * 2 ^ k"
    by (simp add: algebra_simps)
  then have X: "?X + 900000 \<le> ?Y + 2 ^ j"
    by (simp only: Y)
  have "?Y + 2 ^ j \<le> 2 ^ 53 * 2 ^ j"
    by (simp add: Y pk)
  with X have "?X < 2 ^ 53 * 2 ^ j" by linarith
  also have "(2::nat) ^ 53 * 2 ^ j = 2 ^ (j + 53)"
    by (simp only: power_add mult.commute)
  finally have s: "bitLength ?X - 53 \<le> j"
    by (rule bitLength_excess)
  show ?thesis
  proof (cases "?X \<le> ?Y")
    case True
    then show ?thesis
      using pow2_dvd_scaled [OF s] by (rule round53_le)
  next
    case False
    then have above: "?Y < ?X" by simp
    have "(2::nat) ^ 52 * 2 ^ j \<le> ?Y"
      by (intro mult_le_mono1) simp
    then have "(2::nat) ^ (j + 52) \<le> ?Y"
      by (simp only: power_add mult.commute)
    with above have low: "2 ^ (j + 52) \<le> ?X" by linarith
    then have "j + 53 \<le> bitLength ?X"
      using bitLength_ge [of "j + 52" ?X] by simp
    with s have s_eq: "bitLength ?X - 53 = j" by simp
    have "(0::nat) < 2 ^ j" by simp
    with above X have j_pos: "j \<noteq> 0"
      by (cases j) simp_all
    then have split: "(2::nat) ^ j = 2 ^ (j - 1) + 2 ^ (j - 1)"
      by (cases j) simp_all
    have "(2::nat) ^ (j - 1) \<le> 2 ^ 19"
      using j by (intro power_increasing) simp_all
    then have "(2::nat) ^ (j - 1) < 900000" by simp
    with X split have near: "?X < ?Y + 2 ^ (j - 1)" by linarith
    have big: "2 ^ 53 \<le> ?X"
    proof -
      have "(2::nat) ^ 53 \<le> 2 ^ (j + 52)"
        using j_pos by (intro power_increasing) simp_all
      with low show ?thesis by linarith
    qed
    have d: "2 ^ (bitLength ?X - 53) dvd ?Y"
      by (rule pow2_dvd_scaled [OF s])
    from near have "?X < ?Y + 2 ^ (bitLength ?X - 53 - 1)"
      by (simp only: s_eq)
    with big d show ?thesis
      by (rule round53_upper)
  qed
qed

lemma product_large:
  assumes m: "m < 2 ^ 53" and k: "54 \<le> k"
  shows "round53 (m * 900000) \<le> 450000 * 2 ^ k"
proof -
  let ?X = "m * 900000"
  from m have "?X < 2 ^ 53 * 900000" by simp
  also have "(2::nat) ^ 53 * 900000 = 450000 * 2 ^ 54" by simp
  finally have X54: "?X < 450000 * 2 ^ 54" .
  have "(2::nat) ^ 54 \<le> 2 ^ k"
    using k by (rule power_increasing) simp
  then have "450000 * (2::nat) ^ 54 \<le> 450000 * 2 ^ k"
    by (rule mult_le_mono2)
  with X54 have le: "?X \<le> 450000 * 2 ^ k" by linarith
  have "450000 * (2::nat) ^ 54 \<le> 2 ^ (20 + 53)" by simp
  with X54 have "?X < 2 ^ (20 + 53)" by linarith
  then have "bitLength ?X - 53 \<le> 20"
    by (rule bitLength_excess)
  with k have "bitLength ?X - 53 \<le> k" by simp
  then have "(2::nat) ^ (bitLength ?X - 53) dvd 450000 * 2 ^ k"
    by (rule pow2_dvd_scaled)
  with le show ?thesis
    by (rule round53_le)
qed

lemma rounded_sum_range:
  assumes m53: "m < 2 ^ 53" and mk: "m < 2 ^ k"
  shows "100000 \<le> round53 (100000 * 2 ^ k + round53 (m * 900000)) div 2 ^ k
       \<and> round53 (100000 * 2 ^ k + round53 (m * 900000)) div 2 ^ k \<le> 999999"
proof -
  let ?P = "round53 (m * 900000)"
  let ?S = "round53 (100000 * 2 ^ k + ?P)"
  have "100000 * 2 ^ k \<le> ?S \<and> ?S < 1000000 * 2 ^ k"
  proof -
    consider "k \<le> 33" | "34 \<le> k \<and> k \<le> 53" | "54 \<le> k" by linarith
    then show ?thesis
    proof cases
      case 1
      from product_small [OF mk 1] have "?P < 900000 * 2 ^ k" by simp
      then have room: "100000 * 2 ^ k + ?P < 1000000 * 2 ^ k" by simp
      have "(2::nat) ^ k \<le> 2 ^ 33"
        using 1 by (rule power_increasing) simp
      then have bits: "1000000 * (2::nat) ^ k \<le> 2 ^ 53" by simp
      have "?P \<le> ?P * 2 ^ 0" by simp
      then show ?thesis
        using _ room bits by (rule sum_bounds) simp
    next
      case 2
      define j where "j = k - 33"
      with 2 have k: "k = 33 + j" and j: "j \<le> 20"
        by arith+
      have "?P \<le> (900000 * 2 ^ 33 - 1) * 2 ^ j"
        using mk k j by (rule product_middle)
      then show ?thesis
        using k by (rule sum_bounds) simp_all
    next
      case 3
      have "?P \<le> 450000 * 2 ^ k"
        using m53 3 by (rule product_large)
      then show ?thesis
        by (rule sum_bounds [where i = 0]) simp_all
    qed
  qed
  then show ?thesis
    by (intro otp_from_sum) simp_all
qed

lemma Math_floor_range:
  assumes "inUnitInterval r"
  shows "100000 \<le> Math_floor (double_plus 100000 (double_times r 900000))
       \<and> Math_floor (double_plus 100000 (double_times r 900000)) \<le> 999999"
proof (cases r)
  case (Dyadic m k)
  with assms have "m < 2 ^ 53" and "m < 2 ^ k"
    by simp_all
  then show ?thesis
    using rounded_sum_range [of m k] by (simp add: Dyadic)
qed

lemma generateOtp_six:
  assumes "inUnitInterval r"
  shows "length (generateOtp r) = 6 \<and> (\<forall>c\<in>set (generateOtp r). c \<in> set ''0123456789'')
       \<and> hd (generateOtp r) \<noteq> CHR ''0''"
  unfolding generateOtp_def
  using Math_floor_range [OF assms] by (intro toString_six) simp_all

lemma bitLength_eq: "2 ^ b \<le> n \<Longrightarrow> n < 2 ^ Suc b \<Longrightarrow> bitLength n = Suc b"
  using bitLength_ge [of b n] bitLength_le [of n "Suc b"] by simp

text \<open>Where the exact sum lies just below an integer, the double is the integer: for the
  random number \<open>150119987579 / 2 ^ 52\<close> the exact value of \<open>100000 + r * 900000\<close> is below
  100030, and the code is 100030.\<close>

lemma generateOtp_rounds_to_integer: "generateOtp (Dyadic 150119987579 52) = ''100030''"
proof -
  have p: "bitLength 135107988821100000 = Suc 56"
    by (rule bitLength_eq) simp_all
  have P: "round53 135107988821100000 = 135107988821100000"
    by (simp add: round53_def p Let_def)
  have a: "bitLength 450495070725870700000 = Suc 68"
    by (rule bitLength_eq) simp_all
  have S: "round53 450495070725870700000 = 450495070725870714880"
    by (simp add: round53_def a Let_def)
  show ?thesis
    by (simp add: generateOtp_def P S toString_def digits_small digits_large digit_values
        digit_one)
qed

lemma generateOtp_least: "generateOtp (Dyadic 0 0) = ''100000''"
  by (simp add: generateOtp_def toString_def round53_def digits_small digits_large digit_values
      digit_one)

text \<open>
  Claim C5, as the spec states it, fails where it has each digit drawn independently: the
  code renders one number, \<^verbatim>\<open>Math.floor(100000 + Math.random() * 900000)\<close>, and its
  first digit is never 0, for no random number at all; the least random number gives
  100000.
\<close>

theorem generateOtp_leading_digit_counterexample:
  "generateOtp (Dyadic 0 0) = ''100000''
   \<and> \<not> (\<exists>r. inUnitInterval r \<and> hd (generateOtp r) = CHR ''0'')"
  using generateOtp_six by (auto simp add: generateOtp_least)

text \<open>
  Claim C5, amended. For an email that has an account and a random double of \<open>[0, 1)\<close>,
  \<open>requestPasswordReset\<close> resolves to the plaintext code, which is the decimal rendering
  of the one integer \<^verbatim>\<open>Math.floor(100000 + r * 900000)\<close>, computed in doubles: a string
  of exactly six decimal digits whose first digit is never 0, its value in the fixed range
  from 100000 to 999999.
  The tokens afterwards are the former ones without those of the normalized email,
  followed by the new token, whose \<open>expiresAt\<close> is the clock plus ten minutes and whose
  digest is that of the code; exactly one token of that email remains. User, accounts and
  Session Pointer are unchanged.
\<close>

theorem requestPasswordReset_postcondition:
  assumes acc: "find (\<lambda>a. email a = toLowerCase em) (getAccounts s) = Some a"
    and rnd: "inUnitInterval r"
  shows "(let s1 = snd (requestPasswordReset subtle now r em s);
              otp = generateOtp r;
              token = \<lparr>email = toLowerCase em, otpHash = hashString subtle otp,
                       expiresAt = now + 10 * 60 * 1000\<rparr>
          in fst (requestPasswordReset subtle now r em s) = Inr otp
           \<and> length otp = 6
           \<and> (\<forall>c\<in>set otp. c \<in> set ''0123456789'')
           \<and> hd otp \<noteq> CHR ''0''
           \<and> (\<exists>k. 100000 \<le> k \<and> k \<le> 999999 \<and> otp = toString k)
           \<and> getResetTokens s1 =
                filter (\<lambda>t. email t \<noteq> toLowerCase em) (getResetTokens s) @ [token]
           \<and> filter (\<lambda>t. email t = toLowerCase em) (getResetTokens s1) = [token]
           \<and> expiresAt token = now + 600000
           \<and> user s1 = user s
           \<and> isAuthenticated s1 = isAuthenticated s
           \<and> getAccounts s1 = getAccounts s
           \<and> getSession s1 = getSession s)"
proof -
  let ?s1 = "snd (requestPasswordReset subtle now r em s)"
  let ?otp = "generateOtp r"
  let ?token = "\<lparr>email = toLowerCase em, otpHash = hashString subtle ?otp,
                  expiresAt = now + 10 * 60 * 1000\<rparr>"
  note out = requestPasswordReset_found [OF acc, of subtle now r]
  have "getAccounts s \<noteq> []"
    using acc by auto
  then have win: "window s \<noteq> None"
    by (rule window_of_accounts)
  note six = generateOtp_six [OF rnd]
  have rng: "\<exists>k. 100000 \<le> k \<and> k \<le> 999999 \<and> ?otp = toString k"
    using Math_floor_range [OF rnd] unfolding generateOtp_def by blast
  have res: "fst (requestPasswordReset subtle now r em s) = Inr ?otp"
    by (simp add: out)
  have toks: "getResetTokens ?s1 =
      filter (\<lambda>t. email t \<noteq> toLowerCase em) (getResetTokens s) @ [?token]"
    using win by (auto simp add: out getResetTokens_persistResetTokens)
  have one: "filter (\<lambda>t. email t = toLowerCase em) (getResetTokens ?s1) = [?token]"
    unfolding toks by (simp add: filter_empty_conv)
  have rest: "user ?s1 = user s \<and> getAccounts ?s1 = getAccounts s \<and> getSession ?s1 = getSession s"
    by (simp add: out)
  show ?thesis
    unfolding Let_def
    using res six rng toks one rest
    by (simp add: isAuthenticated_def)
qed

theorem requestPasswordReset_postcondition_witness:
  "find (\<lambda>a. email a = toLowerCase ''user@test.com'') (getAccounts withAccount) =
     Some \<lparr>email = ''user@test.com'', createdAt = 0, passwordHash = hashString None ''secret1''\<rparr>
   \<and> inUnitInterval (Dyadic 2 2)
   \<and> fst (requestPasswordReset None 1000 (Dyadic 2 2) ''user@test.com'' withAccount) = Inr ''550000''
   \<and> length ''550000'' = 6
   \<and> getResetTokens (snd (requestPasswordReset None 1000 (Dyadic 2 2) ''user@test.com'' withAccount))
       = [\<lparr>email = ''user@test.com'', otpHash = hashString None ''550000'', expiresAt = 601000\<rparr>]
   \<and> user (snd (requestPasswordReset None 1000 (Dyadic 2 2) ''user@test.com'' withAccount))
       = user withAccount"
proof -
  let ?s1 = "snd (requestPasswordReset None 1000 (Dyadic 2 2) ''user@test.com'' withAccount)"
  have rnd: "inUnitInterval (Dyadic 2 2)"
    by simp
  note th = requestPasswordReset_postcondition [OF find_withAccount rnd, of None 1000,
      unfolded Let_def]
  from th have a: "fst (requestPasswordReset None 1000 (Dyadic 2 2) ''user@test.com'' withAccount)
      = Inr (generateOtp (Dyadic 2 2))"
    by (rule conjunct1)
  from th have "getResetTokens ?s1 =
      filter (\<lambda>t. email t \<noteq> toLowerCase ''user@test.com'') (getResetTokens withAccount) @
        [\<lparr>email = toLowerCase ''user@test.com'',
          otpHash = hashString None (generateOtp (Dyadic 2 2)), expiresAt = 1000 + 10 * 60 * 1000\<rparr>]"
    by blast
  then have b: "getResetTokens ?s1 =
      [\<lparr>email = ''user@test.com'', otpHash = hashString None ''550000'', expiresAt = 601000\<rparr>]"
    by (simp add: getResetTokens_withAccount toLowerCase_user generateOtp_half)
  from th have c: "user ?s1 = user withAccount"
    by blast
  show ?thesis
    using find_withAccount rnd a b c by (simp add: generateOtp_half)
qed

section \<open>One account per normalized email\<close>

lemma of_char_less_256: "(of_char c :: nat) < 256"
proof -
  have "(of_char c :: nat) = of_char c mod 256"
    by (simp only: of_char_mod_256)
  then show ?thesis
    by (metis mod_less_divisor zero_less_numeral)
qed

lemma lowerChar_idem: "lowerChar (lowerChar c) = lowerChar c"
proof -
  define n where "n = (of_char c :: nat)"
  have n: "n < 256"
    unfolding n_def by (rule of_char_less_256)
  show ?thesis
  proof (cases "(65 \<le> n \<and> n \<le> 90) \<or> (192 \<le> n \<and> n \<le> 222 \<and> n \<noteq> 215)")
    case True
    then have l: "lowerChar c = char_of (n + 32)"
      by (simp add: lowerChar_def n_def Let_def)
    from True have "n + 32 < 256"
      by linarith
    then have cancel: "(of_char (char_of (n + 32)) :: nat) = n + 32"
      by simp
    from True have "\<not> ((65 \<le> n + 32 \<and> n + 32 \<le> 90)
        \<or> (192 \<le> n + 32 \<and> n + 32 \<le> 222 \<and> n + 32 \<noteq> 215))"
      by arith
    then have "lowerChar (char_of (n + 32)) = char_of (n + 32)"
      unfolding lowerChar_def Let_def cancel by (rule if_not_P)
    then show ?thesis
      by (simp only: l)
  next
    case False
    then have "lowerChar c = c"
      unfolding lowerChar_def Let_def n_def by (rule if_not_P)
    then show ?thesis by simp
  qed
qed

lemma toLowerCase_idem: "toLowerCase (toLowerCase v) = toLowerCase v"
  by (simp add: toLowerCase_def lowerChar_idem)

lemma getAccounts_signIn: "getAccounts (snd (signIn subtle em pw s)) = getAccounts s"
  by (simp add: signIn_def runAuthAction_def Let_def split: option.splits)

lemma getAccounts_signOut: "getAccounts (snd (signOut s)) = getAccounts s"
  by (simp add: signOut_def runAuthAction_def)

lemma getAccounts_refreshSession: "getAccounts (snd (refreshSession s)) = getAccounts s"
  by (simp add: refreshSession_def runAuthAction_def Let_def split: option.splits)

lemma getAccounts_initialiseSession: "getAccounts (initialiseSession s) = getAccounts s"
  by (simp add: initialiseSession_def Let_def split: option.splits)

lemma getAccounts_clearError: "getAccounts (clearError s) = getAccounts s"
  by (simp add: clearError_def)

lemma getAccounts_requestPasswordReset:
  "getAccounts (snd (requestPasswordReset subtle now r em s)) = getAccounts s"
  by (simp add: requestPasswordReset_def runAuthAction_def Let_def split: option.splits)

lemma getAccounts_signUp:
  "getAccounts (snd (signUp subtle now em pw s)) =
     (if list_ex (\<lambda>a. email a = toLowerCase em) (getAccounts s) \<or> window s = None
      then getAccounts s
      else getAccounts s @ [\<lparr>email = toLowerCase em, createdAt = now,
                             passwordHash = hashString subtle pw\<rparr>])"
proof (cases "list_ex (\<lambda>a. email a = toLowerCase em) (getAccounts s)")
  case True
  then show ?thesis
    by (simp add: signUp_duplicate)
next
  case False
  show ?thesis
  proof (cases "window s = None")
    case True
    then have "getAccounts s = []"
      by (simp add: getAccounts_def)
    with True False show ?thesis
      by (simp add: signUp_fresh getAccounts_persistAccounts)
  next
    case win: False
    with False show ?thesis
      by (simp add: getAccounts_signUp_fresh)
  qed
qed

lemma map_email_update:
  "i < length xs \<Longrightarrow> map email (xs[i := (xs ! i)\<lparr>passwordHash := h\<rparr>]) = map email xs"
  by (simp add: map_update list_update_same_conv)

lemma accountEmails_verifyPasswordReset:
  "accountEmails (snd (verifyPasswordReset subtle now em otp pw s)) = accountEmails s"
proof (cases "find (\<lambda>t. email t = toLowerCase em) (getResetTokens s)")
  case None
  then show ?thesis
    by (simp add: verifyPasswordReset_none accountEmails_def)
next
  case (Some t)
  show ?thesis
  proof (cases "expiresAt t < now")
    case True
    with Some show ?thesis
      by (simp add: verifyPasswordReset_expired accountEmails_def)
  next
    case live: False
    show ?thesis
    proof (cases "hashString subtle otp = otpHash t")
      case False
      with Some live show ?thesis
        by (simp add: verifyPasswordReset_wrong accountEmails_def)
    next
      case code: True
      show ?thesis
      proof (cases "findIndex (\<lambda>a. email a = toLowerCase em) (getAccounts s)")
        case None
        with Some live code show ?thesis
          by (simp add: verifyPasswordReset_no_account accountEmails_def)
      next
        case (Some i)
        note out = verifyPasswordReset_match [OF \<open>find _ _ = Some t\<close> live code Some, of pw]
        from findIndex_Some [OF Some] have i: "i < length (getAccounts s)"
          by simp
        then have "getAccounts s \<noteq> []"
          by auto
        then have win: "window s \<noteq> None"
          by (rule window_of_accounts)
        have "getAccounts (snd (verifyPasswordReset subtle now em otp pw s)) =
            (getAccounts s)[i := (getAccounts s ! i)\<lparr>passwordHash := hashString subtle pw\<rparr>]"
          using win by (auto simp add: out getAccounts_persistAccounts)
        then show ?thesis
          by (simp add: accountEmails_def map_email_update [OF i])
      qed
    qed
  qed
qed


lemma snd_failure [simp]: "snd (failure p) = snd p"
  by (simp add: failure_def)

lemma fst_failure_Inl: "fst p = Inl e \<Longrightarrow> fst (failure p) = Some e"
  by (simp add: failure_def)

lemma list_ex_accountEmails:
  "list_ex (\<lambda>a. email a = e) (getAccounts s) = (e \<in> set (accountEmails s))"
  by (auto simp add: list_ex_iff accountEmails_def)

lemma accountEmails_perform:
  "accountEmails (snd (perform subtle op s)) = accountEmails s
   \<or> (\<exists>now em pw. op = SignUp now em pw \<and> toLowerCase em \<notin> set (accountEmails s)
         \<and> accountEmails (snd (perform subtle op s)) = accountEmails s @ [toLowerCase em])"
proof (cases op)
  case (SignIn em pw)
  then show ?thesis
    by (simp add: accountEmails_def getAccounts_signIn)
next
  case (SignUp now em pw)
  then show ?thesis
    by (simp add: accountEmails_def getAccounts_signUp list_ex_accountEmails [unfolded accountEmails_def])
next
  case SignOut
  then show ?thesis
    by (simp add: accountEmails_def getAccounts_signOut)
next
  case (RequestPasswordReset now r em)
  then show ?thesis
    by (simp add: accountEmails_def getAccounts_requestPasswordReset)
next
  case (VerifyPasswordReset now em otp pw)
  then show ?thesis
    by (simp add: accountEmails_verifyPasswordReset)
next
  case RefreshSession
  then show ?thesis
    by (simp add: accountEmails_def getAccounts_refreshSession)
next
  case ClearError
  then show ?thesis
    by (simp add: accountEmails_def getAccounts_clearError)
next
  case InitialiseSession
  then show ?thesis
    by (simp add: accountEmails_def getAccounts_initialiseSession)
qed

lemma unique_perform:
  assumes "distinct (accountEmails s)" and "\<forall>e\<in>set (accountEmails s). toLowerCase e = e"
  shows "distinct (accountEmails (snd (perform subtle op s)))
       \<and> (\<forall>e\<in>set (accountEmails (snd (perform subtle op s))). toLowerCase e = e)"
  using accountEmails_perform [of subtle op s] assms
  by (auto simp add: toLowerCase_idem)

lemma unique_run:
  "distinct (accountEmails s) \<Longrightarrow> \<forall>e\<in>set (accountEmails s). toLowerCase e = e \<Longrightarrow>
   distinct (accountEmails (run subtle ops s))
   \<and> (\<forall>e\<in>set (accountEmails (run subtle ops s)). toLowerCase e = e)"
proof (induction ops arbitrary: s)
  case Nil
  then show ?case by simp
next
  case (Cons op ops)
  from unique_perform [OF Cons.prems, of subtle op]
  have "distinct (accountEmails (snd (perform subtle op s)))"
    and "\<forall>e\<in>set (accountEmails (snd (perform subtle op s))). toLowerCase e = e"
    by simp_all
  then show ?case
    using Cons.IH by simp
qed

lemma normalizedEmails_fixed:
  "\<forall>e\<in>set (accountEmails s). toLowerCase e = e \<Longrightarrow> normalizedEmails s = accountEmails s"
  by (simp add: normalizedEmails_def map_idI)

lemma toLowerCase_normal: "toLowerCase ''a@b.com'' = ''a@b.com''"
  using toLowerCase_idem [of "''A@b.com''"] by (simp add: toLowerCase_example)

lemma normalizedEmails_after_signUp:
  "normalizedEmails (run None [SignUp 0 ''A@b.com'' ''p''] initialState) = [''a@b.com'']"
  by (simp add: normalizedEmails_def accountEmails_def getAccounts_signUp_fresh
      toLowerCase_example toLowerCase_normal)

text \<open>
  Claim C2. After every sequence of operations from a store without accounts, no two
  accounts of the Accounts collection have the same normalized email; and a sign-up whose
  normalized email is that of an account there, in whatever letter case it is supplied, is
  rejected with \<open>DuplicateAccount\<close> and leaves the Accounts collection as it was.
\<close>

theorem one_account_per_normalized_email:
  assumes empty: "getAccounts s = []"
  shows "(let t = run subtle ops s
          in distinct (normalizedEmails t)
           \<and> (toLowerCase em \<in> set (normalizedEmails t) \<longrightarrow>
                fst (signUp subtle now em pw t) = Inl DuplicateAccount
                \<and> getAccounts (snd (signUp subtle now em pw t)) = getAccounts t))"
proof -
  let ?t = "run subtle ops s"
  have "distinct (accountEmails s)" and "\<forall>e\<in>set (accountEmails s). toLowerCase e = e"
    using empty by (simp_all add: accountEmails_def)
  then have inv: "distinct (accountEmails ?t) \<and> (\<forall>e\<in>set (accountEmails ?t). toLowerCase e = e)"
    by (rule unique_run)
  then have same: "normalizedEmails ?t = accountEmails ?t"
    by (simp add: normalizedEmails_fixed)
  have dup: "fst (signUp subtle now em pw ?t) = Inl DuplicateAccount
      \<and> getAccounts (snd (signUp subtle now em pw ?t)) = getAccounts ?t"
    if "toLowerCase em \<in> set (normalizedEmails ?t)"
  proof -
    from that have "list_ex (\<lambda>a. email a = toLowerCase em) (getAccounts ?t)"
      by (simp add: same list_ex_accountEmails)
    then show ?thesis
      by (simp add: signUp_duplicate)
  qed
  show ?thesis
    unfolding Let_def using inv dup by (simp add: same)
qed

theorem one_account_per_normalized_email_witness:
  "getAccounts initialState = []
   \<and> distinct (normalizedEmails (run None [SignUp 0 ''A@b.com'' ''p''] initialState))
   \<and> toLowerCase ''a@B.COM'' \<in> set (normalizedEmails (run None [SignUp 0 ''A@b.com'' ''p''] initialState))
   \<and> fst (signUp None 1 ''a@B.COM'' ''q'' (run None [SignUp 0 ''A@b.com'' ''p''] initialState))
       = Inl DuplicateAccount
   \<and> getAccounts
        (snd (signUp None 1 ''a@B.COM'' ''q'' (run None [SignUp 0 ''A@b.com'' ''p''] initialState)))
       = getAccounts (run None [SignUp 0 ''A@b.com'' ''p''] initialState)"
proof -
  let ?t = "run None [SignUp 0 ''A@b.com'' ''p''] initialState"
  have m: "toLowerCase ''a@B.COM'' \<in> set (normalizedEmails ?t)"
    by (simp only: normalizedEmails_after_signUp toLowerCase_example) simp
  note th = one_account_per_normalized_email [OF getAccounts_initialState,
      of None "[SignUp 0 ''A@b.com'' ''p'']" "''a@B.COM''" 1 "''q''", unfolded Let_def]
  from th have d: "distinct (normalizedEmails ?t)"
    by (rule conjunct1)
  from th m have f: "fst (signUp None 1 ''a@B.COM'' ''q'' ?t) = Inl DuplicateAccount
      \<and> getAccounts (snd (signUp None 1 ''a@B.COM'' ''q'' ?t)) = getAccounts ?t"
    by blast
  show ?thesis
    using getAccounts_initialState m d f by blast
qed

section \<open>Every token has its account\<close>

text \<open>
  The operations issue a token only for an email that has an account, and never remove an
  account: from a store without tokens, every token they leave has an account for its
  email, so that there the retry with the right code after a wrong one succeeds.
\<close>

lemma find_email_mem: "find (\<lambda>x. email x = e) xs = Some a \<Longrightarrow> e \<in> set (map email xs)"
  by (induction xs) (auto split: if_splits)

lemma getResetTokens_signIn: "getResetTokens (snd (signIn subtle em pw s)) = getResetTokens s"
  by (simp add: signIn_def runAuthAction_def Let_def split: option.splits)

lemma getResetTokens_signUp:
  "getResetTokens (snd (signUp subtle now em pw s)) = getResetTokens s"
  by (simp add: signUp_def runAuthAction_def Let_def)

lemma getResetTokens_signOut: "getResetTokens (snd (signOut s)) = getResetTokens s"
  by (simp add: signOut_def runAuthAction_def)

lemma getResetTokens_refreshSession:
  "getResetTokens (snd (refreshSession s)) = getResetTokens s"
  by (simp add: refreshSession_def runAuthAction_def Let_def split: option.splits)

lemma getResetTokens_initialiseSession:
  "getResetTokens (initialiseSession s) = getResetTokens s"
  by (simp add: initialiseSession_def Let_def split: option.splits)

lemma getResetTokens_clearError: "getResetTokens (clearError s) = getResetTokens s"
  by (simp add: clearError_def)

lemma tokenEmails_requestPasswordReset:
  "set (tokenEmails (snd (requestPasswordReset subtle now r em s)))
     \<subseteq> set (tokenEmails s) \<union> set (accountEmails s)"
proof (cases "find (\<lambda>a. email a = toLowerCase em) (getAccounts s)")
  case None
  then show ?thesis
    by (simp add: requestPasswordReset_unknown tokenEmails_def)
next
  case (Some a)
  from find_email_mem [OF Some] have "toLowerCase em \<in> set (accountEmails s)"
    by (simp add: accountEmails_def)
  then show ?thesis
    by (auto simp add: requestPasswordReset_found [OF Some] tokenEmails_def
        getResetTokens_persistResetTokens)
qed

lemma tokenEmails_verifyPasswordReset:
  "set (tokenEmails (snd (verifyPasswordReset subtle now em otp pw s))) \<subseteq> set (tokenEmails s)"
proof (cases "find (\<lambda>t. email t = toLowerCase em) (getResetTokens s)")
  case None
  then show ?thesis
    by (simp add: verifyPasswordReset_none tokenEmails_def)
next
  case (Some t)
  show ?thesis
  proof (cases "expiresAt t < now")
    case True
    with Some show ?thesis
      by (auto simp add: verifyPasswordReset_expired tokenEmails_def
          getResetTokens_persistResetTokens)
  next
    case live: False
    show ?thesis
    proof (cases "hashString subtle otp = otpHash t")
      case False
      with Some live show ?thesis
        by (simp add: verifyPasswordReset_wrong tokenEmails_def)
    next
      case code: True
      show ?thesis
      proof (cases "findIndex (\<lambda>a. email a = toLowerCase em) (getAccounts s)")
        case None
        with Some live code show ?thesis
          by (simp add: verifyPasswordReset_no_account tokenEmails_def)
      next
        case (Some i)
        note out = verifyPasswordReset_match [OF \<open>find _ _ = Some t\<close> live code Some, of pw]
        show ?thesis
          by (auto simp add: out tokenEmails_def getResetTokens_persistResetTokens)
      qed
    qed
  qed
qed

lemma tokenEmails_perform:
  "set (tokenEmails (snd (perform subtle op s))) \<subseteq> set (tokenEmails s) \<union> set (accountEmails s)"
proof (cases op)
  case (SignIn em pw)
  then show ?thesis
    by (simp add: tokenEmails_def getResetTokens_signIn)
next
  case (SignUp now em pw)
  then show ?thesis
    by (simp add: tokenEmails_def getResetTokens_signUp)
next
  case SignOut
  then show ?thesis
    by (simp add: tokenEmails_def getResetTokens_signOut)
next
  case (RequestPasswordReset now r em)
  then show ?thesis
    using tokenEmails_requestPasswordReset [of subtle now r em s] by simp
next
  case (VerifyPasswordReset now em otp pw)
  then show ?thesis
    using tokenEmails_verifyPasswordReset [of subtle now em otp pw s] by auto
next
  case RefreshSession
  then show ?thesis
    by (simp add: tokenEmails_def getResetTokens_refreshSession)
next
  case ClearError
  then show ?thesis
    by (simp add: tokenEmails_def getResetTokens_clearError)
next
  case InitialiseSession
  then show ?thesis
    by (simp add: tokenEmails_def getResetTokens_initialiseSession)
qed

lemma accountEmails_grow:
  "set (accountEmails s) \<subseteq> set (accountEmails (snd (perform subtle op s)))"
  using accountEmails_perform [of subtle op s] by auto

lemma tokens_have_accounts_perform:
  assumes "set (tokenEmails s) \<subseteq> set (accountEmails s)"
  shows "set (tokenEmails (snd (perform subtle op s)))
           \<subseteq> set (accountEmails (snd (perform subtle op s)))"
  using assms tokenEmails_perform [of subtle op s] accountEmails_grow [of s subtle op]
  by blast

lemma tokens_have_accounts_run:
  "set (tokenEmails s) \<subseteq> set (accountEmails s) \<Longrightarrow>
   set (tokenEmails (run subtle ops s)) \<subseteq> set (accountEmails (run subtle ops s))"
proof (induction ops arbitrary: s)
  case Nil
  then show ?case by simp
next
  case (Cons op ops)
  from tokens_have_accounts_perform [OF Cons.prems, of subtle op]
  show ?case
    using Cons.IH by simp
qed

lemma token_found_account_exists:
  assumes empty: "getResetTokens s = []"
    and tok: "find (\<lambda>t. email t = toLowerCase em) (getResetTokens (run subtle ops s)) = Some t"
  shows "list_ex (\<lambda>a. email a = toLowerCase em) (getAccounts (run subtle ops s))"
proof -
  have "set (tokenEmails s) \<subseteq> set (accountEmails s)"
    using empty by (simp add: tokenEmails_def)
  then have sub: "set (tokenEmails (run subtle ops s)) \<subseteq> set (accountEmails (run subtle ops s))"
    by (rule tokens_have_accounts_run)
  from find_email_mem [OF tok] have "toLowerCase em \<in> set (tokenEmails (run subtle ops s))"
    by (simp add: tokenEmails_def)
  with sub have "toLowerCase em \<in> set (accountEmails (run subtle ops s))"
    by blast
  then show ?thesis
    by (simp add: list_ex_accountEmails)
qed

section \<open>Missing and corrupt collections\<close>

lemma unreadable_reads_Nil:
  "unreadable item \<Longrightarrow>
   (case item of None \<Rightarrow> []
    | Some raw \<Rightarrow> (case JSON_parse raw of None \<Rightarrow> [] | Some (Arr parsed) \<Rightarrow> parsed | Some Other \<Rightarrow> [])) = []"
  by (cases item rule: unreadable.cases) simp_all

lemma getAccounts_unreadable:
  "window s = Some ls \<Longrightarrow> unreadable (ACCOUNTS_KEY ls) \<Longrightarrow> getAccounts s = []"
  by (simp add: getAccounts_def unreadable_reads_Nil)

lemma getResetTokens_unreadable:
  "window s = Some ls \<Longrightarrow> unreadable (RESET_KEY ls) \<Longrightarrow> getResetTokens s = []"
  by (simp add: getResetTokens_def unreadable_reads_Nil)

lemma getAccounts_readAsEmpty [simp]: "getAccounts (readAsEmpty s) = getAccounts s"
proof (cases "window s")
  case None
  then show ?thesis by (simp add: readAsEmpty_def)
next
  case (Some ls)
  show ?thesis
  proof (cases "unreadable (ACCOUNTS_KEY ls)")
    case True
    with Some show ?thesis
      by (simp add: getAccounts_unreadable) (simp add: readAsEmpty_def getAccounts_def JSON_stringify_def)
  next
    case False
    with Some show ?thesis
      by (simp add: readAsEmpty_def getAccounts_def)
  qed
qed

lemma getResetTokens_readAsEmpty [simp]: "getResetTokens (readAsEmpty s) = getResetTokens s"
proof (cases "window s")
  case None
  then show ?thesis by (simp add: readAsEmpty_def)
next
  case (Some ls)
  show ?thesis
  proof (cases "unreadable (RESET_KEY ls)")
    case True
    with Some show ?thesis
      by (simp add: getResetTokens_unreadable)
         (simp add: readAsEmpty_def getResetTokens_def JSON_stringify_def)
  next
    case False
    with Some show ?thesis
      by (simp add: readAsEmpty_def getResetTokens_def)
  qed
qed

lemma getSession_readAsEmpty [simp]: "getSession (readAsEmpty s) = getSession s"
  by (cases "window s") (simp_all add: readAsEmpty_def getSession_def)

lemma loadAccountForEmail_readAsEmpty [simp]:
  "loadAccountForEmail em (readAsEmpty s) = loadAccountForEmail em s"
  by (simp add: loadAccountForEmail_def split: option.splits)

lemma fst_signIn:
  "fst (signIn subtle em pw s) =
     (case find (\<lambda>a. email a = toLowerCase em) (getAccounts s) of
        None \<Rightarrow> Inl AccountNotFound
      | Some a \<Rightarrow> if passwordHash a \<noteq> hashString subtle pw then Inl InvalidCredential else Inr ())"
  by (simp add: signIn_def runAuthAction_def Let_def split: option.splits)

lemma fst_signUp:
  "fst (signUp subtle now em pw s) =
     (if list_ex (\<lambda>a. email a = toLowerCase em) (getAccounts s) then Inl DuplicateAccount
      else Inr ())"
  by (simp add: signUp_def runAuthAction_def Let_def)

lemma fst_signOut: "fst (signOut s) = Inr ()"
  by (simp add: signOut_def runAuthAction_def)

lemma fst_refreshSession:
  "fst (refreshSession s) = Inr (loadAccountForEmail (getSession s) s \<noteq> None)"
  by (simp add: refreshSession_def runAuthAction_def Let_def split: option.splits)

lemma fst_requestPasswordReset:
  "fst (requestPasswordReset subtle now r em s) =
     (case find (\<lambda>a. email a = toLowerCase em) (getAccounts s) of
        None \<Rightarrow> Inl AccountNotFound
      | Some a \<Rightarrow> Inr (generateOtp r))"
  by (simp add: requestPasswordReset_def runAuthAction_def Let_def split: option.splits)

lemma fst_verifyPasswordReset:
  "fst (verifyPasswordReset subtle now em otp pw s) =
     (case find (\<lambda>t. email t = toLowerCase em) (getResetTokens s) of
        None \<Rightarrow> Inl ResetNotFound
      | Some t \<Rightarrow>
          if expiresAt t < now then Inl ResetExpired
          else if hashString subtle otp \<noteq> otpHash t then Inl InvalidCode
          else if findIndex (\<lambda>a. email a = toLowerCase em) (getAccounts s) = None
          then Inl AccountNotFound
          else Inr ())"
  by (simp add: verifyPasswordReset_def runAuthAction_def Let_def split: option.splits)

lemma fst_failure: "fst (failure p) = (case fst p of Inl err \<Rightarrow> Some err | Inr v \<Rightarrow> None)"
  by (simp add: failure_def)

lemma fst_perform_readAsEmpty:
  "fst (perform subtle op (readAsEmpty s)) = fst (perform subtle op s)"
proof (cases op)
  case (SignIn em pw)
  then show ?thesis
    by (simp only: perform.simps fst_failure fst_signIn getAccounts_readAsEmpty)
next
  case (SignUp now em pw)
  then show ?thesis
    by (simp only: perform.simps fst_failure fst_signUp getAccounts_readAsEmpty)
next
  case SignOut
  then show ?thesis
    by (simp only: perform.simps fst_failure fst_signOut)
next
  case (RequestPasswordReset now r em)
  then show ?thesis
    by (simp only: perform.simps fst_failure fst_requestPasswordReset getAccounts_readAsEmpty)
next
  case (VerifyPasswordReset now em otp pw)
  then show ?thesis
    by (simp only: perform.simps fst_failure fst_verifyPasswordReset getAccounts_readAsEmpty
        getResetTokens_readAsEmpty)
next
  case RefreshSession
  then show ?thesis
    by (simp only: perform.simps fst_failure fst_refreshSession getSession_readAsEmpty
        loadAccountForEmail_readAsEmpty)
next
  case ClearError
  then show ?thesis
    by simp
next
  case InitialiseSession
  then show ?thesis
    by simp
qed

text \<open>
  Claim C8. When the value of the Accounts collection, or of the Reset Tokens collection,
  is missing, is not valid JSON or does not parse to an array, the read returns the empty
  collection; the readers have no failing branch, and every operation is rejected on such
  a store exactly as it is on the store that holds empty collections in place of those
  values: with the same error, or not at all.
\<close>

theorem unreadable_collections_read_empty:
  assumes win: "window s = Some ls"
  shows "(unreadable (ACCOUNTS_KEY ls) \<longrightarrow> getAccounts s = [])
       \<and> (unreadable (RESET_KEY ls) \<longrightarrow> getResetTokens s = [])
       \<and> getAccounts (readAsEmpty s) = getAccounts s
       \<and> getResetTokens (readAsEmpty s) = getResetTokens s
       \<and> fst (perform subtle op s) = fst (perform subtle op (readAsEmpty s))"
  using getAccounts_unreadable [OF win] getResetTokens_unreadable [OF win]
  by (simp add: fst_perform_readAsEmpty)

lemma window_corruptState: "window corruptState = Some corruptStore"
  by (simp add: corruptState_def)

theorem unreadable_collections_read_empty_witness:
  "window corruptState = Some corruptStore
   \<and> unreadable (ACCOUNTS_KEY corruptStore)
   \<and> unreadable (RESET_KEY corruptStore)
   \<and> getAccounts corruptState = []
   \<and> getResetTokens corruptState = []
   \<and> fst (perform None (SignIn ''user@test.com'' ''secret1'') corruptState) = Some AccountNotFound
   \<and> fst (perform None (SignUp 0 ''user@test.com'' ''secret1'') corruptState) = None"
proof -
  have a: "unreadable (ACCOUNTS_KEY corruptStore)" and r: "unreadable (RESET_KEY corruptStore)"
    by (simp_all add: corruptStore_def)
  note th = unreadable_collections_read_empty [OF window_corruptState]
  from th a have ga: "getAccounts corruptState = []"
    by blast
  from th r have gr: "getResetTokens corruptState = []"
    by blast
  have "fst (perform None (SignIn ''user@test.com'' ''secret1'') corruptState) =
      fst (perform None (SignIn ''user@test.com'' ''secret1'') (readAsEmpty corruptState))"
    using th [of None "SignIn ''user@test.com'' ''secret1''"] by blast
  then have i: "fst (perform None (SignIn ''user@test.com'' ''secret1'') corruptState)
      = Some AccountNotFound"
    by (simp add: fst_failure fst_signIn ga)
  have "fst (perform None (SignUp 0 ''user@test.com'' ''secret1'') corruptState) =
      fst (perform None (SignUp 0 ''user@test.com'' ''secret1'') (readAsEmpty corruptState))"
    using th [of None "SignUp 0 ''user@test.com'' ''secret1''"] by blast
  then have u: "fst (perform None (SignUp 0 ''user@test.com'' ''secret1'') corruptState) = None"
    by (simp add: fst_failure fst_signUp ga)
  show ?thesis
    using window_corruptState a r ga gr i u by blast
qed

end
